theory Spec2Isabelle
  imports Complex_Main "HOL-Library.Sublist" "HOL-Library.Multiset"
begin

section \<open>Model of the adaptive batch inference-and-scoring engine\<close>

text \<open>
  The definitions below embed the scoring and preparation code of
  \<^verbatim>\<open>src/lighteval/models/transformers/transformers_model.py\<close>.
  Token ids, lengths taken from configuration and counts computed by subtraction are
  Python integers and modelled as \<^typ>\<open>int\<close>; a raise is a value \<open>Inl e\<close>.
\<close>

subsection \<open>Python values: errors and slices\<close>

datatype error = ValueError | TypeError | IndexError | RuntimeError

text \<open>\<^verbatim>\<open>xs[i:]\<close> for a Python integer \<open>i\<close>: a negative start counts from the end
  and is clipped at the front of the list (so \<^verbatim>\<open>xs[-0:]\<close> is the whole list).\<close>

definition py_from :: "'a list \<Rightarrow> int \<Rightarrow> 'a list" where
  "py_from xs i = (if 0 \<le> i then drop (nat i) xs else drop (nat (int (length xs) + i)) xs)"

text \<open>\<^verbatim>\<open>xs[:j]\<close> for a Python integer \<open>j\<close>.\<close>

definition py_upto :: "'a list \<Rightarrow> int \<Rightarrow> 'a list" where
  "py_upto xs j = (if 0 \<le> j then take (nat j) xs else take (nat (int (length xs) + j)) xs)"

subsection \<open>Batch and the log-likelihood sequence preparer\<close>

record Batch =
  input_ids :: "int list list"
  input_mask :: "bool list list"
  input_lengths :: "nat list"
  truncated :: "int list"
  padded :: "int list"

record LoglikelihoodRequest =
  tokenized_context :: "int list"
  tokenized_continuation :: "int list"

text \<open>The list \<^verbatim>\<open>inputs\<close> of \<^verbatim>\<open>prepare_batch_logprob\<close> when
  \<^verbatim>\<open>single_token\<close> is false: context followed by the continuation without its last token.\<close>

definition logprob_inputs :: "LoglikelihoodRequest list \<Rightarrow> int list list" where
  "logprob_inputs batch =
     map (\<lambda>request. tokenized_context request @ py_upto (tokenized_continuation request) (- 1)) batch"

text \<open>The loop \<^verbatim>\<open>for orig_tokens in inputs\<close>. Its arguments are the pad token id, the
  effective \<^verbatim>\<open>max_context\<close>, the current \<^verbatim>\<open>padding_length\<close> (which the first
  iteration fixes when it was \<^verbatim>\<open>None\<close>) and the remaining inputs. The five lists the
  source appends to are returned as the fields of a \<^typ>\<open>Batch\<close>; a raise in any
  iteration leaves no batch.\<close>

fun prepare_loop :: "int \<Rightarrow> int \<Rightarrow> int option \<Rightarrow> int list list \<Rightarrow> error + Batch" where
  "prepare_loop pad max_context padding_length [] =
     Inr \<lparr>input_ids = [], input_mask = [], input_lengths = [], truncated = [], padded = []\<rparr>"
| "prepare_loop pad max_context padding_length (orig_tokens # rest) =
     (let tokens = py_from orig_tokens (- max_context);
          sequence_len = length tokens;
          pl = (case padding_length of Some p \<Rightarrow> p | None \<Rightarrow> int sequence_len)
      in if pl - int sequence_len < 0 then Inl ValueError
         else
           (case prepare_loop pad max_context (Some pl) rest of
              Inl e \<Rightarrow> Inl e
            | Inr b \<Rightarrow>
                (let padded_tokens = tokens @ replicate (nat (pl - int sequence_len)) pad
                 in Inr \<lparr>input_ids = padded_tokens # input_ids b,
                         input_mask = map (\<lambda>t. t = pad) padded_tokens # input_mask b,
                         input_lengths = sequence_len # input_lengths b,
                         truncated = max (int (length orig_tokens) - max_context) 0 # truncated b,
                         padded = (pl - int sequence_len) # padded b\<rparr>)))"

text \<open>\<^verbatim>\<open>prepare_batch_logprob(batch, padding_length, max_context, single_token=False)\<close>.
  \<^verbatim>\<open>max_context = None\<close> falls back to the model's \<^verbatim>\<open>_max_length\<close>;
  \<^verbatim>\<open>torch.cat\<close> of no rows raises.\<close>

definition prepare_batch_logprob ::
  "int \<Rightarrow> int \<Rightarrow> LoglikelihoodRequest list \<Rightarrow> int option \<Rightarrow> int option \<Rightarrow> error + Batch" where
  "prepare_batch_logprob pad max_length batch padding_length max_context =
     (let mc = (case max_context of None \<Rightarrow> max_length | Some m \<Rightarrow> m)
      in case prepare_loop pad mc padding_length (logprob_inputs batch) of
           Inl e \<Rightarrow> Inl e
         | Inr b \<Rightarrow> if batch = [] then Inl RuntimeError else Inr b)"

subsection \<open>Generation budget of \<^verbatim>\<open>greedy_until\<close>\<close>

text \<open>Lines 1002 to 1017: the number of new tokens allowed for a batch whose padded
  context has \<^verbatim>\<open>context_size\<close> columns; \<^verbatim>\<open>generation_size\<close> is the request's
  optional \<^verbatim>\<open>generation_size\<close>.\<close>

definition max_new_tokens :: "int \<Rightarrow> int \<Rightarrow> int option \<Rightarrow> int" where
  "max_new_tokens max_length context_size generation_size =
     (if context_size > max_length then 1
      else
        (case generation_size of
           None \<Rightarrow> max_length - context_size
         | Some g \<Rightarrow>
             (let m = min (max_length - context_size) g in if m < 1 then 1 else m)))"

subsection \<open>Score extraction of \<^verbatim>\<open>_loglikelihood_tokens\<close>\<close>

text \<open>\<^verbatim>\<open>torch.argmax\<close> over one vocabulary row: the index of the first maximal value.\<close>

fun argmax_from :: "nat \<Rightarrow> real \<Rightarrow> nat \<Rightarrow> real list \<Rightarrow> nat" where
  "argmax_from best bv i [] = best"
| "argmax_from best bv i (x # xs) =
     (if bv < x then argmax_from i x (Suc i) xs else argmax_from best bv (Suc i) xs)"

definition argmax :: "real list \<Rightarrow> nat" where
  "argmax row = (case row of [] \<Rightarrow> 0 | x # xs \<Rightarrow> argmax_from 0 x 1 xs)"

text \<open>\<^verbatim>\<open>(greedy_tokens == cont_toks).all()\<close> on tensors of shape \<open>[1, S]\<close> and \<open>[1, K]\<close>:
  equal lengths compare position by position, a length of one is broadcast against the
  other tensor, any other pair of lengths raises.\<close>

definition eq_all :: "nat list \<Rightarrow> int list \<Rightarrow> error + bool" where
  "eq_all greedy_tokens cont_toks =
     (if length greedy_tokens = length cont_toks
        then Inr (list_all2 (\<lambda>g c. int g = c) greedy_tokens cont_toks)
      else if length cont_toks = 1
        then Inr (list_all (\<lambda>g. int g = hd cont_toks) greedy_tokens)
      else if length greedy_tokens = 1
        then Inr (list_all (\<lambda>c. int (hd greedy_tokens) = c) cont_toks)
      else Inl RuntimeError)"

text \<open>\<^verbatim>\<open>torch.gather(cur_logits, 2, cont_toks.unsqueeze(-1)).squeeze(-1).sum()\<close>: the index
  tensor may have fewer positions than the logits but not more, and every index must be a
  vocabulary entry; position \<open>k\<close> of the result is \<open>cur_logits[k][cont_toks[k]]\<close>.\<close>

definition gather_sum :: "real list list \<Rightarrow> int list \<Rightarrow> error + real" where
  "gather_sum cur_logits cont_toks =
     (if length cur_logits < length cont_toks
         \<or> list_ex (\<lambda>(row, t). t < 0 \<or> int (length row) \<le> t) (zip cur_logits cont_toks)
      then Inl RuntimeError
      else Inr (sum_list (map (\<lambda>(row, t). row ! nat t) (zip cur_logits cont_toks))))"

text \<open>The body of the loop over \<^verbatim>\<open>zip(batch, logits, prepared_batch.input_lengths)\<close>, lines
  1213 to 1236: \<^verbatim>\<open>cur_logits\<close> holds the log-probabilities of one row of the batch (one
  vocabulary row per column), \<^verbatim>\<open>inplen\<close> its unpadded length. The result is the pair
  \<^verbatim>\<open>(cur_logits.sum(), max_equal)\<close>.\<close>

definition score_row :: "real list list \<Rightarrow> int list \<Rightarrow> nat \<Rightarrow> error + (real \<times> bool)" where
  "score_row cur_logits continuation inplen =
     (let contlen = length continuation;
          sel = (if contlen > inplen then cur_logits
                 else drop (inplen - contlen) (take inplen cur_logits));
          cont_toks = (if contlen > inplen then take inplen continuation
                       else continuation)
      in if [] \<in> set sel then Inl IndexError
         else
           (case eq_all (map argmax sel) cont_toks of
              Inl e \<Rightarrow> Inl e
            | Inr max_equal \<Rightarrow>
                (case gather_sum sel cont_toks of
                   Inl e \<Rightarrow> Inl e
                 | Inr logits_sum \<Rightarrow> Inr (logits_sum, max_equal))))"

subsection \<open>Single-token scoring: gathering and padding the candidate log-probabilities\<close>

text \<open>\<^verbatim>\<open>F.log_softmax(out, dim=-1)\<close> on one vocabulary row, over the reals.\<close>

definition log_softmax :: "real list \<Rightarrow> real list" where
  "log_softmax xs = map (\<lambda>x. x - ln (sum_list (map exp xs))) xs"

text \<open>\<^verbatim>\<open>xs[i]\<close> for a Python integer \<open>i\<close>: a negative index counts from the end.\<close>

definition py_nth :: "'a list \<Rightarrow> int \<Rightarrow> error + 'a" where
  "py_nth xs i =
     (if 0 \<le> i \<and> i < int (length xs) then Inr (xs ! nat i)
      else if i < 0 \<and> - int (length xs) \<le> i then Inr (xs ! nat (int (length xs) + i))
      else Inl IndexError)"

text \<open>\<^verbatim>\<open>torch.tensor(cur_request.tokenized_continuation).squeeze(-1)\<close>: the continuation is
  one token list per choice. Lists of one token each give a vector of choices; lists of
  unequal length cannot form a tensor, and lists of another common length keep their
  second dimension, which \<^verbatim>\<open>torch.gather\<close> on the one-dimensional logits refuses.\<close>

definition cont_toks_tensor :: "int list list \<Rightarrow> error + int list" where
  "cont_toks_tensor continuation =
     (if list_all (\<lambda>c. length c = 1) continuation then Inr (map hd continuation)
      else if list_all (\<lambda>c. length c = length (hd continuation)) continuation then Inl RuntimeError
      else Inl ValueError)"

text \<open>\<^verbatim>\<open>torch.gather(logits, dim=0, index=cont_toks)\<close>.\<close>

definition gather0 :: "real list \<Rightarrow> int list \<Rightarrow> error + real list" where
  "gather0 logits cont_toks =
     (if list_ex (\<lambda>t. t < 0 \<or> int (length logits) \<le> t) cont_toks then Inl RuntimeError
      else Inr (map (\<lambda>t. logits ! nat t) cont_toks))"

text \<open>One iteration of the loop at lines 1441 to 1456: the log-probabilities of the
  choices at the last unpadded position of the row.\<close>

definition single_token_row :: "real list list \<Rightarrow> int list list \<Rightarrow> nat \<Rightarrow> error + real list" where
  "single_token_row out_row continuation inplen =
     (case py_nth out_row (int inplen - 1) of
        Inl e \<Rightarrow> Inl e
      | Inr logits \<Rightarrow>
          (case cont_toks_tensor continuation of
             Inl e \<Rightarrow> Inl e
           | Inr cont_toks \<Rightarrow> gather0 logits cont_toks))"

text \<open>A loop that appends one result per iteration and stops at the first raise.\<close>

fun collect :: "(error + 'a) list \<Rightarrow> error + 'a list" where
  "collect [] = Inr []"
| "collect (Inl e # rs) = Inl e"
| "collect (Inr x # rs) = (case collect rs of Inl e \<Rightarrow> Inl e | Inr xs \<Rightarrow> Inr (x # xs))"

text \<open>The list \<^verbatim>\<open>batch_probs\<close> after the loop over
  \<^verbatim>\<open>zip(batch, out, prepared_batch.input_lengths)\<close>; \<^verbatim>\<open>model_output\<close> is the result of
  \<^verbatim>\<open>_model_call\<close>, of shape \<open>[batch, padding_length, vocab]\<close>.\<close>

definition single_token_rows ::
  "real list list list \<Rightarrow> int list list list \<Rightarrow> nat list \<Rightarrow> error + real list list" where
  "single_token_rows model_output continuations inplens =
     collect (map (\<lambda>(continuation, out_row, inplen).
                     single_token_row (map log_softmax out_row) continuation inplen)
                  (zip continuations (zip model_output inplens)))"

text \<open>\<^verbatim>\<open>pad_sequence(sequences, batch_first=True, padding_value=v)\<close>: every sequence is
  extended on the right with \<open>v\<close> to the length of the longest one.\<close>

definition pad_sequence :: "real list list \<Rightarrow> real \<Rightarrow> real list list" where
  "pad_sequence sequences v =
     (let max_len = foldr max (map length sequences) 0
      in map (\<lambda>s. s @ replicate (max_len - length s) v) sequences)"

text \<open>Lines 1439 to 1464 and 1479 in a single process: the rows of \<^verbatim>\<open>batch_probs\<close> as the
  responses receive them. Without an accelerator \<^verbatim>\<open>pad_and_gather\<close> adds no column and
  reports the common width for every row, so \<^verbatim>\<open>probs[: len_probs[ix]]\<close> is the whole padded
  row. \<^verbatim>\<open>pad_sequence\<close> of no sequence raises.\<close>

definition single_token_batch_probs ::
  "real list list list \<Rightarrow> int list list list \<Rightarrow> nat list \<Rightarrow> error + real list list" where
  "single_token_batch_probs model_output continuations inplens =
     (case single_token_rows model_output continuations inplens of
        Inl e \<Rightarrow> Inl e
      | Inr batch_probs \<Rightarrow>
          if batch_probs = [] then Inl RuntimeError
          else Inr (pad_sequence batch_probs (- 65504)))"

subsection \<open>Batch-size probing across the processing groups\<close>

text \<open>\<^verbatim>\<open>_get_batch_size(max_input_length, override_bs, starting_batch_size)\<close>. The decorated
  \<^verbatim>\<open>forward_batch\<close> (built by \<^verbatim>\<open>find_executable_batch_size\<close>, which is not among the
  sources) is the parameter \<open>forward_batch\<close>: from a starting batch size and an input length
  it returns the batch size it settled on, or raises. Comparing an \<^verbatim>\<open>override_bs\<close> of
  \<^verbatim>\<open>None\<close> with \<open>0\<close> raises.\<close>

definition get_batch_size ::
  "(int \<Rightarrow> int \<Rightarrow> error + int) \<Rightarrow> int \<Rightarrow> int option \<Rightarrow> int \<Rightarrow> error + int" where
  "get_batch_size forward_batch max_input_length override_bs starting_batch_size =
     (case override_bs of
        None \<Rightarrow> Inl TypeError
      | Some bs \<Rightarrow> if bs > 0 then Inr bs else forward_batch starting_batch_size max_input_length)"

definition STARTING_BATCH_SIZE :: int where
  "STARTING_BATCH_SIZE = 512"

text \<open>The loop over the splits in \<^verbatim>\<open>greedy_until\<close> (lines 937 to 961), reduced to its
  batch-size bookkeeping: the argument list holds
  \<^verbatim>\<open>max_context_continuation_size_allowed\<close> of each split, the result the pair
  (\<^verbatim>\<open>starting_batch_size\<close> handed to \<^verbatim>\<open>_get_batch_size\<close>, batch size returned) of each
  split in order.\<close>

fun greedy_until_splits ::
  "(int \<Rightarrow> int \<Rightarrow> error + int) \<Rightarrow> int option \<Rightarrow> int \<Rightarrow> int list \<Rightarrow> error + (int \<times> int) list" where
  "greedy_until_splits forward_batch override_bs starting_batch_size [] = Inr []"
| "greedy_until_splits forward_batch override_bs starting_batch_size (max_input_length # rest) =
     (case get_batch_size forward_batch max_input_length override_bs starting_batch_size of
        Inl e \<Rightarrow> Inl e
      | Inr batch_size \<Rightarrow>
          (case greedy_until_splits forward_batch override_bs (batch_size * 2) rest of
             Inl e \<Rightarrow> Inl e
           | Inr probes \<Rightarrow> Inr ((starting_batch_size, batch_size) # probes)))"

definition greedy_until_batch_sizes ::
  "(int \<Rightarrow> int \<Rightarrow> error + int) \<Rightarrow> int option \<Rightarrow> int list \<Rightarrow> error + (int \<times> int) list" where
  "greedy_until_batch_sizes forward_batch override_bs split_lengths =
     greedy_until_splits forward_batch override_bs STARTING_BATCH_SIZE split_lengths"

text \<open>The same bookkeeping in \<^verbatim>\<open>_loglikelihood_tokens\<close> (lines 1173 to 1191).\<close>

fun loglikelihood_tokens_splits ::
  "(int \<Rightarrow> int \<Rightarrow> error + int) \<Rightarrow> int option \<Rightarrow> int \<Rightarrow> int list \<Rightarrow> error + (int \<times> int) list" where
  "loglikelihood_tokens_splits forward_batch override_bs starting_batch_size [] = Inr []"
| "loglikelihood_tokens_splits forward_batch override_bs starting_batch_size (max_input_length # rest) =
     (case get_batch_size forward_batch max_input_length override_bs starting_batch_size of
        Inl e \<Rightarrow> Inl e
      | Inr batch_size \<Rightarrow>
          (case loglikelihood_tokens_splits forward_batch override_bs (batch_size * 2) rest of
             Inl e \<Rightarrow> Inl e
           | Inr probes \<Rightarrow> Inr ((starting_batch_size, batch_size) # probes)))"

definition loglikelihood_tokens_batch_sizes ::
  "(int \<Rightarrow> int \<Rightarrow> error + int) \<Rightarrow> int option \<Rightarrow> int list \<Rightarrow> error + (int \<times> int) list" where
  "loglikelihood_tokens_batch_sizes forward_batch override_bs split_lengths =
     loglikelihood_tokens_splits forward_batch override_bs STARTING_BATCH_SIZE split_lengths"

text \<open>\<^verbatim>\<open>_loglikelihood_single_token\<close> (lines 1419 to 1425) assigns
  \<^verbatim>\<open>starting_batch_size = STARTING_BATCH_SIZE\<close> and then calls
  \<^verbatim>\<open>_get_batch_size(override_bs=override_bs, max_input_length=max_context)\<close>: the variable is
  neither passed nor updated, so every call runs with the default
  \<^verbatim>\<open>starting_batch_size = 512\<close> of \<^verbatim>\<open>_get_batch_size\<close>.\<close>

fun loglikelihood_single_token_splits ::
  "(int \<Rightarrow> int \<Rightarrow> error + int) \<Rightarrow> int option \<Rightarrow> int \<Rightarrow> int list \<Rightarrow> error + (int \<times> int) list" where
  "loglikelihood_single_token_splits forward_batch override_bs starting_batch_size [] = Inr []"
| "loglikelihood_single_token_splits forward_batch override_bs starting_batch_size (max_context # rest) =
     (case get_batch_size forward_batch max_context override_bs 512 of
        Inl e \<Rightarrow> Inl e
      | Inr batch_size \<Rightarrow>
          (case loglikelihood_single_token_splits forward_batch override_bs starting_batch_size rest of
             Inl e \<Rightarrow> Inl e
           | Inr probes \<Rightarrow> Inr ((512, batch_size) # probes)))"

definition loglikelihood_single_token_batch_sizes ::
  "(int \<Rightarrow> int \<Rightarrow> error + int) \<Rightarrow> int option \<Rightarrow> int list \<Rightarrow> error + (int \<times> int) list" where
  "loglikelihood_single_token_batch_sizes forward_batch override_bs split_lengths =
     loglikelihood_single_token_splits forward_batch override_bs STARTING_BATCH_SIZE split_lengths"

subsection \<open>Tokenizing and checking single-token requests\<close>

text \<open>Python's \<^verbatim>\<open>str.isspace\<close> on one ASCII character, and \<^verbatim>\<open>str.lstrip()\<close>.\<close>

definition py_isspace :: "char \<Rightarrow> bool" where
  "py_isspace c = (let n = (of_char c :: nat) in (9 \<le> n \<and> n \<le> 13) \<or> (28 \<le> n \<and> n \<le> 32))"

definition lstrip :: "string \<Rightarrow> string" where
  "lstrip s = dropWhile py_isspace s"

text \<open>\<^verbatim>\<open>_check_continuations_start_space\<close>: the option
  \<^verbatim>\<open>multichoice_continuations_start_space\<close> is \<^verbatim>\<open>None\<close> (leave the continuation alone),
  \<^verbatim>\<open>True\<close> (add a leading space when there is none) or \<^verbatim>\<open>False\<close> (strip a leading
  space). In the last two cases the code reads \<^verbatim>\<open>continuation[0]\<close>, which raises on the
  empty string.\<close>

definition check_continuations_start_space :: "bool option \<Rightarrow> string \<Rightarrow> error + string" where
  "check_continuations_start_space multichoice_continuations_start_space continuation =
     (case multichoice_continuations_start_space of
        None \<Rightarrow> Inr continuation
      | Some start_space \<Rightarrow>
          (case continuation of
             [] \<Rightarrow> Inl IndexError
           | c # cs \<Rightarrow>
               if start_space then (if c \<noteq> CHR '' '' then Inr (CHR '' '' # continuation) else Inr continuation)
               else (if c = CHR '' '' then Inr (lstrip continuation) else Inr continuation)))"

record LoglikelihoodSingleTokenRequest =
  st_context :: string
  choices :: "string list"
  st_tokenized_context :: "int list"
  st_tokenized_continuation :: "int list list"

text \<open>One iteration of the loop of \<^verbatim>\<open>loglikelihood_single_token\<close> (lines 1395 to 1411).
  \<open>tok_encode\<close> is the tokenizer with its configured special tokens, \<open>tok_encode_plain\<close> the
  tokenizer called with \<^verbatim>\<open>add_special_tokens=False\<close>.\<close>

definition tokenize_single_token_request ::
  "(string \<Rightarrow> int list) \<Rightarrow> (string \<Rightarrow> int list) \<Rightarrow> int \<Rightarrow> bool option
     \<Rightarrow> LoglikelihoodSingleTokenRequest \<Rightarrow> error + LoglikelihoodSingleTokenRequest" where
  "tokenize_single_token_request tok_encode tok_encode_plain eos_token_id start_space request =
     (let tokenized = (if st_context request = [] then [eos_token_id] else tok_encode (st_context request))
      in case collect (map (check_continuations_start_space start_space) (choices request)) of
           Inl e \<Rightarrow> Inl e
         | Inr continuations \<Rightarrow>
             (let continuations_enc = map tok_encode_plain continuations
              in if list_ex (\<lambda>c. length c > 1) continuations_enc then Inl ValueError
                 else Inr (request\<lparr>st_tokenized_context := tokenized,
                                   st_tokenized_continuation := continuations_enc\<rparr>)))"

text \<open>The loop of \<^verbatim>\<open>loglikelihood_single_token\<close> over the requests: the first raise ends
  it.\<close>

definition tokenize_single_token_requests ::
  "(string \<Rightarrow> int list) \<Rightarrow> (string \<Rightarrow> int list) \<Rightarrow> int \<Rightarrow> bool option
     \<Rightarrow> LoglikelihoodSingleTokenRequest list \<Rightarrow> error + LoglikelihoodSingleTokenRequest list" where
  "tokenize_single_token_requests tok_encode tok_encode_plain eos_token_id start_space requests =
     collect (map (tokenize_single_token_request tok_encode tok_encode_plain eos_token_id start_space)
                  requests)"

text \<open>\<^verbatim>\<open>loglikelihood_single_token\<close>: the tokenized and checked requests are handed to
  \<^verbatim>\<open>_loglikelihood_single_token\<close>, the parameter \<open>score\<close>.\<close>

definition loglikelihood_single_token ::
  "(string \<Rightarrow> int list) \<Rightarrow> (string \<Rightarrow> int list) \<Rightarrow> int \<Rightarrow> bool option
     \<Rightarrow> (LoglikelihoodSingleTokenRequest list \<Rightarrow> error + 'r list)
     \<Rightarrow> LoglikelihoodSingleTokenRequest list \<Rightarrow> error + 'r list" where
  "loglikelihood_single_token tok_encode tok_encode_plain eos_token_id start_space score requests =
     (case tokenize_single_token_requests tok_encode tok_encode_plain eos_token_id start_space requests of
        Inl e \<Rightarrow> Inl e
      | Inr tokenized_requests \<Rightarrow> score tokenized_requests)"

subsection \<open>The multi-token stop criterion\<close>

text \<open>The state of a \<^verbatim>\<open>MultiTokenEOSCriteria\<close> object. The tokenizer is not part of the
  state: its \<^verbatim>\<open>encode\<close> is used once by the constructor and its \<^verbatim>\<open>decode\<close> is a
  parameter of every call.\<close>

record MultiTokenEOSCriteria =
  initial_decoder_input_length :: nat
  done_tracker :: "bool list"
  sequence :: string
  sequence_id_len :: nat

text \<open>\<^verbatim>\<open>__init__\<close>, from the shape \<open>(batch_size, length)\<close> of the batch's
  \<^verbatim>\<open>input_ids\<close>.\<close>

definition MultiTokenEOSCriteria_init ::
  "(string \<Rightarrow> int list) \<Rightarrow> string \<Rightarrow> nat \<times> nat \<Rightarrow> MultiTokenEOSCriteria" where
  "MultiTokenEOSCriteria_init encode stop_sequence input_ids_shape =
     \<lparr>initial_decoder_input_length = snd input_ids_shape,
      done_tracker = replicate (fst input_ids_shape) False,
      sequence = stop_sequence,
      sequence_id_len = length (encode stop_sequence)\<rparr>"

text \<open>One row of
  \<^verbatim>\<open>input_ids[:, self.initial_decoder_input_length :][:, -self.sequence_id_len :]\<close>.\<close>

definition lookback_ids :: "MultiTokenEOSCriteria \<Rightarrow> int list \<Rightarrow> int list" where
  "lookback_ids c row =
     py_from (drop (initial_decoder_input_length c) row) (- int (sequence_id_len c))"

text \<open>The test \<^verbatim>\<open>self.sequence in lookback_tokens_batch[i]\<close> for one row of
  \<^verbatim>\<open>input_ids\<close>: the stop sequence is a substring of the decoded window.\<close>

definition window_has_stop :: "(int list \<Rightarrow> string) \<Rightarrow> MultiTokenEOSCriteria \<Rightarrow> int list \<Rightarrow> bool" where
  "window_has_stop decode c row = sublist (sequence c) (decode (lookback_ids c row))"

text \<open>The loop \<^verbatim>\<open>for i, done in enumerate(self.done_tracker)\<close>, from index \<open>i\<close> on: a row
  that is not done yet becomes done when the stop sequence occurs in its decoded window
  (\<^verbatim>\<open>self.sequence in lookback_tokens_batch[i]\<close>, a substring test); reading a window
  that does not exist raises.\<close>

fun update_done_tracker :: "string \<Rightarrow> string list \<Rightarrow> nat \<Rightarrow> bool list \<Rightarrow> error + bool list" where
  "update_done_tracker stop lookback_tokens_batch i [] = Inr []"
| "update_done_tracker stop lookback_tokens_batch i (done # rest) =
     (if \<not> done \<and> length lookback_tokens_batch \<le> i then Inl IndexError
      else
        (case update_done_tracker stop lookback_tokens_batch (Suc i) rest of
           Inl e \<Rightarrow> Inl e
         | Inr rest' \<Rightarrow>
             Inr ((if done then True else sublist stop (lookback_tokens_batch ! i)) # rest')))"

text \<open>\<^verbatim>\<open>__call__(input_ids, scores)\<close>: the updated criterion and the returned flag
  \<^verbatim>\<open>False not in self.done_tracker\<close>.\<close>

definition MultiTokenEOSCriteria_call ::
  "(int list \<Rightarrow> string) \<Rightarrow> MultiTokenEOSCriteria \<Rightarrow> int list list
     \<Rightarrow> error + (MultiTokenEOSCriteria \<times> bool)" where
  "MultiTokenEOSCriteria_call decode c ids =
     (let lookback_tokens_batch = map (\<lambda>row. decode (lookback_ids c row)) ids
      in case update_done_tracker (sequence c) lookback_tokens_batch 0 (done_tracker c) of
           Inl e \<Rightarrow> Inl e
         | Inr tracker \<Rightarrow> Inr (c\<lparr>done_tracker := tracker\<rparr>, list_all (\<lambda>d. d) tracker))"

text \<open>The criterion called once per generation step, on the \<^verbatim>\<open>input_ids\<close> of each step
  in order: the final criterion and the flags returned, one per step.\<close>

fun generation_steps ::
  "(int list \<Rightarrow> string) \<Rightarrow> MultiTokenEOSCriteria \<Rightarrow> int list list list
     \<Rightarrow> error + (MultiTokenEOSCriteria \<times> bool list)" where
  "generation_steps decode c [] = Inr (c, [])"
| "generation_steps decode c (ids # later) =
     (case MultiTokenEOSCriteria_call decode c ids of
        Inl e \<Rightarrow> Inl e
      | Inr (c', flag) \<Rightarrow>
          (case generation_steps decode c' later of
             Inl e \<Rightarrow> Inl e
           | Inr (c'', flags) \<Rightarrow> Inr (c'', flag # flags)))"

subsection \<open>Preference pairs: \<^verbatim>\<open>build_tokenized_answer\<close> and \<^verbatim>\<open>tokenize_row\<close>\<close>

text \<open>What the tokenizer returns for one text when called with
  \<^verbatim>\<open>add_special_tokens=False\<close>: the keys \<^verbatim>\<open>input_ids\<close> and \<^verbatim>\<open>attention_mask\<close>. The
  tokenizer itself is a parameter \<open>tokenizer\<close> of the functions below.\<close>

record Encoding =
  enc_input_ids :: "int list"
  enc_attention_mask :: "int list"

text \<open>The dictionary built by \<^verbatim>\<open>build_tokenized_answer\<close>, with the keys
  \<^verbatim>\<open>prompt_input_ids\<close>, \<^verbatim>\<open>prompt_attention_mask\<close>, \<^verbatim>\<open>input_ids\<close> and
  \<^verbatim>\<open>attention_mask\<close>.\<close>

record TokenizedAnswer =
  ans_prompt_input_ids :: "int list"
  ans_prompt_attention_mask :: "int list"
  ans_input_ids :: "int list"
  ans_attention_mask :: "int list"

text \<open>The variable \<^verbatim>\<open>response_token_ids_start_idx\<close> of
  \<^verbatim>\<open>build_tokenized_answer\<close>: the number of tokens of the prompt encoded alone, less one
  when they are not the first tokens of the encoding of prompt and answer together (the
  last prompt token merged with the answer).\<close>

definition response_token_ids_start_idx :: "(string \<Rightarrow> Encoding) \<Rightarrow> string \<Rightarrow> string \<Rightarrow> int" where
  "response_token_ids_start_idx tokenizer prompt answer =
     (let full_tokenized = tokenizer (prompt @ answer);
          prompt_ids = enc_input_ids (tokenizer prompt)
      in if prompt_ids \<noteq> py_upto (enc_input_ids full_tokenized) (int (length prompt_ids))
         then int (length prompt_ids) - 1 else int (length prompt_ids))"

definition build_tokenized_answer ::
  "(string \<Rightarrow> Encoding) \<Rightarrow> string \<Rightarrow> string \<Rightarrow> error + TokenizedAnswer" where
  "build_tokenized_answer tokenizer prompt answer =
     (let full_tokenized = tokenizer (prompt @ answer);
          prompt_ids = enc_input_ids (tokenizer prompt);
          answer_ids = py_from (enc_input_ids full_tokenized) (int (length prompt_ids));
          full_concat_input_ids = prompt_ids @ answer_ids
      in if length (enc_input_ids full_tokenized) \<noteq> length full_concat_input_ids then Inl ValueError
         else
           (let start_idx = response_token_ids_start_idx tokenizer prompt answer;
                prompt_input = py_upto (enc_input_ids full_tokenized) start_idx;
                prompt_mask = py_upto (enc_attention_mask full_tokenized) start_idx
            in if length prompt_input \<noteq> length prompt_mask then Inl ValueError
               else Inr \<lparr>ans_prompt_input_ids = prompt_input,
                         ans_prompt_attention_mask = prompt_mask,
                         ans_input_ids = py_from (enc_input_ids full_tokenized) start_idx,
                         ans_attention_mask = py_from (enc_attention_mask full_tokenized) start_idx\<rparr>))"

text \<open>\<^verbatim>\<open>s.replace(old, "")\<close>: the occurrences of \<open>old\<close> are removed from left to right
  without overlap; \<open>skip\<close> counts the characters of the current occurrence still to be
  dropped. Replacing the empty string by itself changes nothing.\<close>

fun py_remove :: "string \<Rightarrow> nat \<Rightarrow> string \<Rightarrow> string" where
  "py_remove old skip [] = []"
| "py_remove old skip (c # cs) =
     (if 0 < skip then py_remove old (skip - 1) cs
      else if old \<noteq> [] \<and> prefix old (c # cs) then py_remove old (length old - 1) cs
      else c # py_remove old 0 cs)"

text \<open>The attributes of the model that \<^verbatim>\<open>tokenize_row\<close> reads. The constructor sets
  \<^verbatim>\<open>label_pad_token_id = -100\<close>, \<^verbatim>\<open>truncation_mode = "keep_end"\<close> and
  \<^verbatim>\<open>max_prompt_length = 128\<close>.\<close>

record RowConfig =
  cfg_bos_token_id :: int
  cfg_eos_token_id :: int
  cfg_max_length :: int
  cfg_max_prompt_length :: int
  cfg_truncation_mode :: string
  cfg_label_pad_token_id :: int

record PreferenceRequest =
  pr_context :: string
  chosen_continuation :: string
  rejected_continuation :: string

text \<open>The keys of the dictionary \<^verbatim>\<open>tokenize_row\<close> returns.\<close>

record RowBatch =
  chosen_input_ids :: "int list"
  chosen_attention_mask :: "int list"
  chosen_labels :: "int list"
  rejected_input_ids :: "int list"
  rejected_attention_mask :: "int list"
  rejected_labels :: "int list"
  prompt_input_ids :: "int list"
  prompt_attention_mask :: "int list"

text \<open>One iteration of the first truncation loop (lines 1688 to 1697) on the pair
  \<^verbatim>\<open>(prompt_input_ids, prompt_attention_mask)\<close> of one of the three dictionaries.\<close>

definition truncate_prompt ::
  "RowConfig \<Rightarrow> int \<Rightarrow> int list \<times> int list \<Rightarrow> error + (int list \<times> int list)" where
  "truncate_prompt cfg longer_response_length p =
     (if int (length (fst p)) + longer_response_length > cfg_max_length cfg then
        (if cfg_truncation_mode cfg = ''keep_start''
           then Inr (py_upto (fst p) (cfg_max_prompt_length cfg), py_upto (snd p) (cfg_max_prompt_length cfg))
         else if cfg_truncation_mode cfg = ''keep_end''
           then Inr (py_from (fst p) (- cfg_max_prompt_length cfg),
                     py_from (snd p) (- cfg_max_prompt_length cfg))
         else Inl ValueError)
      else Inr p)"

text \<open>One iteration of the second truncation loop (lines 1700 to 1703): \<open>n\<close> is the length
  of the dictionary's \<^verbatim>\<open>prompt_input_ids\<close> after the first loop, \<open>xs\<close> its
  \<^verbatim>\<open>input_ids\<close> or \<^verbatim>\<open>attention_mask\<close>.\<close>

definition truncate_response :: "RowConfig \<Rightarrow> int \<Rightarrow> nat \<Rightarrow> int list \<Rightarrow> int list" where
  "truncate_response cfg longer_response_length n xs =
     (if int n + longer_response_length > cfg_max_length cfg
      then py_upto xs (cfg_max_length cfg - cfg_max_prompt_length cfg) else xs)"

text \<open>\<^verbatim>\<open>labels = input_ids[:]; labels[:n] = [label_pad_token_id] * n\<close> for \<open>n\<close> the
  number of prompt positions of a sequence \<open>prompt_ids + answer_ids\<close>.\<close>

definition make_labels :: "int \<Rightarrow> nat \<Rightarrow> int list \<Rightarrow> int list" where
  "make_labels label_pad n sequence_ids = replicate n label_pad @ drop n sequence_ids"

definition tokenize_row :: "RowConfig \<Rightarrow> (string \<Rightarrow> Encoding) \<Rightarrow> PreferenceRequest \<Rightarrow> error + RowBatch" where
  "tokenize_row cfg tokenizer request =
     (let prompt = pr_context request;
          chosen = py_remove prompt 0 (chosen_continuation request);
          rejected = py_remove prompt 0 (rejected_continuation request);
          prompt_tokens = tokenizer prompt
      in case build_tokenized_answer tokenizer prompt chosen of
           Inl e \<Rightarrow> Inl e
         | Inr chosen_tokens \<Rightarrow>
        (case build_tokenized_answer tokenizer prompt rejected of
           Inl e \<Rightarrow> Inl e
         | Inr rejected_tokens \<Rightarrow>
        (let prompt_p = (cfg_bos_token_id cfg # enc_input_ids prompt_tokens,
                         1 # enc_attention_mask prompt_tokens);
             chosen_p = (cfg_bos_token_id cfg # ans_prompt_input_ids chosen_tokens,
                         1 # ans_prompt_attention_mask chosen_tokens);
             rejected_p = (cfg_bos_token_id cfg # ans_prompt_input_ids rejected_tokens,
                           1 # ans_prompt_attention_mask rejected_tokens);
             chosen_ids = ans_input_ids chosen_tokens @ [cfg_eos_token_id cfg];
             chosen_mask = ans_attention_mask chosen_tokens @ [1];
             rejected_ids = ans_input_ids rejected_tokens @ [cfg_eos_token_id cfg];
             rejected_mask = ans_attention_mask rejected_tokens @ [1];
             longer_response_length = int (max (length chosen_ids) (length rejected_ids))
         in case truncate_prompt cfg longer_response_length chosen_p of
              Inl e \<Rightarrow> Inl e
            | Inr chosen_p' \<Rightarrow>
           (case truncate_prompt cfg longer_response_length rejected_p of
              Inl e \<Rightarrow> Inl e
            | Inr rejected_p' \<Rightarrow>
           (case truncate_prompt cfg longer_response_length prompt_p of
              Inl e \<Rightarrow> Inl e
            | Inr prompt_p' \<Rightarrow>
           (let chosen_ids' = truncate_response cfg longer_response_length (length (fst chosen_p')) chosen_ids;
                chosen_mask' = truncate_response cfg longer_response_length (length (fst chosen_p')) chosen_mask;
                rejected_ids' =
                  truncate_response cfg longer_response_length (length (fst rejected_p')) rejected_ids;
                rejected_mask' =
                  truncate_response cfg longer_response_length (length (fst rejected_p')) rejected_mask
            in Inr \<lparr>chosen_input_ids = fst chosen_p' @ chosen_ids',
                    chosen_attention_mask = snd chosen_p' @ chosen_mask',
                    chosen_labels = make_labels (cfg_label_pad_token_id cfg) (length (fst chosen_p'))
                                      (fst chosen_p' @ chosen_ids'),
                    rejected_input_ids = fst rejected_p' @ rejected_ids',
                    rejected_attention_mask = snd rejected_p' @ rejected_mask',
                    rejected_labels = make_labels (cfg_label_pad_token_id cfg) (length (fst rejected_p'))
                                        (fst rejected_p' @ rejected_ids'),
                    prompt_input_ids = fst prompt_p',
                    prompt_attention_mask = snd prompt_p'\<rparr>))))))"

subsection \<open>Request ordering: sorting, batched processing and restoring the caller's order\<close>

text \<open>Modelled from the spec: the request datasets (\<^verbatim>\<open>GenerativeTaskDataset\<close>,
  \<^verbatim>\<open>LoglikelihoodDataset\<close> of \<^verbatim>\<open>lighteval.data\<close>) are not among the sources. Following
  sections 3 and 4.1 of the specification, a dataset sorts the requests by a sorting
  criterion (longest first) while keeping, for every sorted position, the request's
  position in the caller's list (the private index \<^verbatim>\<open>original_index\<close>).\<close>

record 'r RequestDataset =
  sorted_data :: "'r list"
  original_order :: "nat list"

definition make_dataset :: "('r \<Rightarrow> int) \<Rightarrow> 'r list \<Rightarrow> 'r RequestDataset" where
  "make_dataset sorting_criteria requests =
     (let sorted_enumerated = sort_key (\<lambda>(i, r). sorting_criteria r) (enumerate 0 requests)
      in \<lparr>sorted_data = map snd sorted_enumerated, original_order = map fst sorted_enumerated\<rparr>)"

text \<open>Modelled from the spec: \<^verbatim>\<open>get_original_order\<close> applies the inverse of the sort
  permutation: the results, produced in sorted order, are put back in the order of their
  requests' original indices.\<close>

definition get_original_order :: "'r RequestDataset \<Rightarrow> 'a list \<Rightarrow> 'a list" where
  "get_original_order dataset new_arr = map snd (sort_key fst (zip (original_order dataset) new_arr))"

text \<open>Modelled from the spec: the splits are contiguous groups of the sorted requests, given
  by their start and end positions; \<open>contiguous_splits p n splits\<close> says that the groups
  follow one another from position \<open>p\<close> to position \<open>n\<close>.\<close>

fun contiguous_splits :: "nat \<Rightarrow> nat \<Rightarrow> (nat \<times> nat) list \<Rightarrow> bool" where
  "contiguous_splits p n [] = (p = n)"
| "contiguous_splits p n ((split_start, split_end) # rest) =
     (split_start = p \<and> split_start \<le> split_end \<and> split_end \<le> n \<and> contiguous_splits split_end n rest)"

text \<open>\<^verbatim>\<open>DataLoader(dataset, batch_size=batch_size, collate_fn=lambda batch: batch)\<close>: the
  items in order, in lists of \<^verbatim>\<open>batch_size\<close> items, the last one possibly shorter.\<close>

function batched :: "nat \<Rightarrow> 'a list \<Rightarrow> 'a list list" where
  "batched batch_size xs =
     (if batch_size = 0 \<or> xs = [] then [] else take batch_size xs # batched batch_size (drop batch_size xs))"
  by pat_completeness auto
termination
  by (relation "measure (\<lambda>(batch_size, xs). length xs)") auto

declare batched.simps [simp del]

text \<open>The two nested loops of \<^verbatim>\<open>greedy_until\<close> (lines 937 to 1035) and of
  \<^verbatim>\<open>_loglikelihood_tokens\<close> (lines 1176 to 1273): for every split, with the batch size
  found for it, every batch of the split is processed and its responses are appended to
  the results. \<open>process\<close> stands for the preparation, the model call and the construction of
  the responses of one batch.\<close>

definition run_splits :: "('r list \<Rightarrow> 'a list) \<Rightarrow> 'r list \<Rightarrow> ((nat \<times> nat) \<times> nat) list \<Rightarrow> 'a list" where
  "run_splits process data splits =
     concat (map (\<lambda>((split_start, split_end), batch_size).
                    concat (map process
                      (batched batch_size (take (split_end - split_start) (drop split_start data)))))
                 splits)"

text \<open>The whole of \<^verbatim>\<open>greedy_until\<close> or \<^verbatim>\<open>_loglikelihood_tokens\<close> as far as the order of
  the responses goes: \<^verbatim>\<open>return dataset.get_original_order(results)\<close>.\<close>

definition process_requests ::
  "('r \<Rightarrow> int) \<Rightarrow> ('r list \<Rightarrow> 'a list) \<Rightarrow> 'r list \<Rightarrow> ((nat \<times> nat) \<times> nat) list \<Rightarrow> 'a list" where
  "process_requests sorting_criteria process requests splits =
     (let dataset = make_dataset sorting_criteria requests
      in get_original_order dataset (run_splits process (sorted_data dataset) splits))"

section \<open>Properties\<close>

lemma py_from_neg_pos: "0 < k \<Longrightarrow> py_from xs (- k) = drop (length xs - nat k) xs"
  by (auto simp: py_from_def nat_diff_distrib' intro: arg_cong [where f = "\<lambda>n. drop n xs"])

subsection \<open>The log-likelihood sequence preparer\<close>

lemma prepare_loop_fields:
  "prepare_loop pad mc (Some pl) inputs = Inr b \<Longrightarrow>
     input_ids b = map (\<lambda>orig. py_from orig (- mc) @ replicate (nat (pl - int (length (py_from orig (- mc))))) pad) inputs
   \<and> input_mask b = map (map (\<lambda>t. t = pad)) (input_ids b)
   \<and> input_lengths b = map (\<lambda>orig. length (py_from orig (- mc))) inputs
   \<and> truncated b = map (\<lambda>orig. max (int (length orig) - mc) 0) inputs
   \<and> padded b = map (\<lambda>orig. pl - int (length (py_from orig (- mc)))) inputs
   \<and> (\<forall>orig \<in> set inputs. int (length (py_from orig (- mc))) \<le> pl)"
proof (induction inputs arbitrary: b)
  case Nil
  then show ?case by auto
next
  case (Cons orig rest)
  from Cons.prems obtain b' where
    ok: "int (length (py_from orig (- mc))) \<le> pl" and
    rec: "prepare_loop pad mc (Some pl) rest = Inr b'" and
    b: "b = \<lparr>input_ids = (py_from orig (- mc) @ replicate (nat (pl - int (length (py_from orig (- mc))))) pad) # input_ids b',
             input_mask = map (\<lambda>t. t = pad) (py_from orig (- mc) @ replicate (nat (pl - int (length (py_from orig (- mc))))) pad) # input_mask b',
             input_lengths = length (py_from orig (- mc)) # input_lengths b',
             truncated = max (int (length orig) - mc) 0 # truncated b',
             padded = (pl - int (length (py_from orig (- mc)))) # padded b'\<rparr>"
    by (auto simp: Let_def split: if_splits sum.splits)
  from Cons.IH [OF rec] show ?case using ok b by simp
qed

lemma py_upto_minus_one: "py_upto xs (- 1) = butlast xs"
  by (simp add: py_upto_def butlast_conv_take nat_diff_distrib')

lemma logprob_inputs_nth:
  "i < length batch \<Longrightarrow>
   logprob_inputs batch ! i = tokenized_context (batch ! i) @ butlast (tokenized_continuation (batch ! i))"
  by (simp add: logprob_inputs_def py_upto_minus_one)

lemma length_logprob_inputs: "length (logprob_inputs batch) = length batch"
  by (simp add: logprob_inputs_def)

lemma py_from_window:
  assumes "0 < mc \<or> (mc = 0 \<and> length (py_from orig (- mc)) = 0)"
  shows "py_from orig (- mc) = drop (length orig - nat mc) orig"
proof (cases "0 < mc")
  case True
  then show ?thesis by (rule py_from_neg_pos)
next
  case False
  with assms have "mc = 0" and "length (py_from orig 0) = 0" by auto
  then show ?thesis by (simp add: py_from_def)
qed

lemma prepare_loop_row:
  assumes loop: "prepare_loop pad mc (Some pl) inputs = Inr b"
    and mc: "0 < mc \<or> (mc = 0 \<and> pl = 0)"
    and i: "i < length inputs"
  shows "length (input_ids b) = length inputs
       \<and> input_ids b ! i =
           drop (length (inputs ! i) - nat mc) (inputs ! i) @ replicate (nat pl - input_lengths b ! i) pad
       \<and> input_lengths b ! i = min (length (inputs ! i)) (nat mc)
       \<and> truncated b ! i = max (int (length (inputs ! i)) - mc) 0
       \<and> padded b ! i = pl - int (input_lengths b ! i)
       \<and> int (input_lengths b ! i) + padded b ! i = int (length (input_ids b ! i))
       \<and> length (input_ids b ! i) = nat pl"
proof -
  define orig where "orig = inputs ! i"
  define kept where "kept = py_from orig (- mc)"
  note f = prepare_loop_fields [OF loop]
  have mem: "orig \<in> set inputs"
    using i by (simp add: orig_def)
  have fits: "int (length kept) \<le> pl"
    using f mem by (simp add: kept_def)
  have "0 < mc \<or> (mc = 0 \<and> length (py_from orig (- mc)) = 0)"
    using mc fits by (auto simp: kept_def)
  then have kept: "kept = drop (length orig - nat mc) orig"
    unfolding kept_def by (rule py_from_window)
  have ids: "input_ids b ! i = kept @ replicate (nat (pl - int (length kept))) pad"
    using f i by (simp add: orig_def kept_def)
  have lens: "input_lengths b ! i = length kept"
    using f i by (simp add: orig_def kept_def)
  have tr: "truncated b ! i = max (int (length orig) - mc) 0"
    using f i by (simp add: orig_def)
  have pd: "padded b ! i = pl - int (length kept)"
    using f i by (simp add: orig_def kept_def)
  have n: "length (input_ids b) = length inputs"
    using f by simp
  have klen: "length kept = min (length orig) (nat mc)"
    unfolding kept by simp
  have rep: "nat (pl - int (length kept)) = nat pl - length kept"
    by (simp add: nat_diff_distrib')
  have cols: "length (input_ids b ! i) = nat pl"
    unfolding ids using fits by simp
  have c2: "input_ids b ! i =
      drop (length orig - nat mc) orig @ replicate (nat pl - input_lengths b ! i) pad"
    unfolding ids rep lens by (simp only: kept)
  have c3: "input_lengths b ! i = min (length orig) (nat mc)"
    unfolding lens by (rule klen)
  have c5: "padded b ! i = pl - int (input_lengths b ! i)"
    unfolding lens by (rule pd)
  have c6: "int (input_lengths b ! i) + padded b ! i = int (length (input_ids b ! i))"
    unfolding lens pd cols using fits by simp
  show ?thesis
    unfolding orig_def [symmetric] using n c2 c3 tr c5 c6 cols by (intro conjI)
qed

lemma prepare_batch_logprob_rows_aux:
  assumes ret: "prepare_batch_logprob pad max_length batch (Some padding_length) (Some max_context) = Inr b"
    and mc: "0 < max_context \<or> (max_context = 0 \<and> padding_length = 0)"
    and i: "i < length batch"
  shows "length (input_ids b) = length batch
       \<and> input_ids b ! i =
           drop (length (tokenized_context (batch ! i) @ butlast (tokenized_continuation (batch ! i))) - nat max_context)
                (tokenized_context (batch ! i) @ butlast (tokenized_continuation (batch ! i)))
           @ replicate (nat padding_length - input_lengths b ! i) pad
       \<and> input_lengths b ! i =
           min (length (tokenized_context (batch ! i) @ butlast (tokenized_continuation (batch ! i)))) (nat max_context)
       \<and> truncated b ! i =
           max (int (length (tokenized_context (batch ! i) @ butlast (tokenized_continuation (batch ! i)))) - max_context) 0
       \<and> padded b ! i = padding_length - int (input_lengths b ! i)
       \<and> int (input_lengths b ! i) + padded b ! i = int (length (input_ids b ! i))
       \<and> length (input_ids b ! i) = nat padding_length"
proof -
  from ret have loop: "prepare_loop pad max_context (Some padding_length) (logprob_inputs batch) = Inr b"
    by (auto simp: prepare_batch_logprob_def split: sum.splits if_splits)
  have i': "i < length (logprob_inputs batch)"
    using i by (simp add: length_logprob_inputs)
  show ?thesis
    by (rule prepare_loop_row [OF loop mc i', unfolded logprob_inputs_nth [OF i] length_logprob_inputs])
qed

text \<open>
  \<^bold>\<open>C3\<close>. Whenever \<^verbatim>\<open>prepare_batch_logprob\<close> returns a batch (no
  \<^verbatim>\<open>Negative padding\<close> error) for a positive \<^verbatim>\<open>max_context\<close> (or for
  \<^verbatim>\<open>padding_length = max_context = 0\<close>, the only other value its callers can pass), row
  \<open>i\<close> is the context followed by the continuation without its last token, cut from the
  left to its last \<^verbatim>\<open>max_context\<close> tokens and right-padded with the pad token to
  \<^verbatim>\<open>padding_length\<close> columns; \<^verbatim>\<open>truncated\<close> is
  \<open>max (original length - max_context) 0\<close>, \<^verbatim>\<open>padded\<close> is
  \<^verbatim>\<open>padding_length\<close> minus the kept length, and
  \<open>input_lengths[i] + padded[i]\<close> is the number of columns.
\<close>

theorem prepare_batch_logprob_rows:
  assumes ret: "prepare_batch_logprob pad max_length batch (Some padding_length) (Some max_context) = Inr b"
    and mc: "0 < max_context \<or> (max_context = 0 \<and> padding_length = 0)"
    and i: "i < length batch"
  shows "length (input_ids b) = length batch
       \<and> input_ids b ! i =
           drop (length (tokenized_context (batch ! i) @ butlast (tokenized_continuation (batch ! i))) - nat max_context)
                (tokenized_context (batch ! i) @ butlast (tokenized_continuation (batch ! i)))
           @ replicate (nat padding_length - input_lengths b ! i) pad
       \<and> input_lengths b ! i =
           min (length (tokenized_context (batch ! i) @ butlast (tokenized_continuation (batch ! i)))) (nat max_context)
       \<and> truncated b ! i =
           max (int (length (tokenized_context (batch ! i) @ butlast (tokenized_continuation (batch ! i)))) - max_context) 0
       \<and> padded b ! i = padding_length - int (input_lengths b ! i)
       \<and> int (input_lengths b ! i) + padded b ! i = int (length (input_ids b ! i))
       \<and> length (input_ids b ! i) = nat padding_length"
  by (rule prepare_batch_logprob_rows_aux [OF ret mc i])

theorem prepare_batch_logprob_rows_witness:
  "prepare_batch_logprob 0 2048
      [\<lparr>tokenized_context = [1, 2, 3], tokenized_continuation = [4, 5]\<rparr>,
       \<lparr>tokenized_context = [6], tokenized_continuation = [7]\<rparr>] (Some 3) (Some 3)
    = Inr \<lparr>input_ids = [[2, 3, 4], [6, 0, 0]],
            input_mask = [[False, False, False], [False, True, True]],
            input_lengths = [3, 1], truncated = [1, 0], padded = [0, 2]\<rparr>
   \<and> [[2, 3, 4], [6, 0, 0]] ! 1 = drop (length ([6] @ butlast [7 :: int]) - nat 3) ([6] @ butlast [7]) @ replicate (nat 3 - 1) (0 :: int)
   \<and> [3, 1 :: nat] ! 1 = min (length ([6] @ butlast [7 :: int])) (nat 3)
   \<and> [0, 2 :: int] ! 1 = 3 - int ([3, 1] ! 1)"
proof -
  let ?batch = "[\<lparr>tokenized_context = [1, 2, 3], tokenized_continuation = [4, 5]\<rparr>,
       \<lparr>tokenized_context = [6 :: int], tokenized_continuation = [7 :: int]\<rparr>]"
  let ?b = "\<lparr>input_ids = [[2, 3, 4], [6, 0, 0]],
            input_mask = [[False, False, False], [False, True, True]],
            input_lengths = [3, 1], truncated = [1, 0], padded = [0, 2]\<rparr>"
  have ret: "prepare_batch_logprob 0 2048 ?batch (Some 3) (Some 3) = Inr ?b"
    by (simp add: prepare_batch_logprob_def logprob_inputs_def py_from_def py_upto_def eval_nat_numeral)
  have mc: "(0 :: int) < 3 \<or> ((3 :: int) = 0 \<and> (3 :: int) = 0)" by simp
  have i: "(1 :: nat) < length ?batch" by simp
  from prepare_batch_logprob_rows [OF ret mc i] ret show ?thesis by simp
qed

subsection \<open>The mask of the log-likelihood path\<close>

lemma prepare_loop_mask:
  "prepare_loop pad mc padding_length inputs = Inr b \<Longrightarrow>
   input_mask b = map (map (\<lambda>t. t = pad)) (input_ids b)"
proof (induction inputs arbitrary: b padding_length)
  case Nil
  then show ?case by auto
next
  case (Cons orig rest)
  then show ?case
    by (fastforce simp: Let_def split: if_splits sum.splits)
qed

lemma prepare_batch_logprob_mask:
  assumes ret: "prepare_batch_logprob pad max_length batch padding_length max_context = Inr b"
    and i: "i < length (input_ids b)" and j: "j < length (input_ids b ! i)"
  shows "input_mask b ! i ! j = (input_ids b ! i ! j = pad)"
proof -
  from ret obtain mc where "prepare_loop pad mc padding_length (logprob_inputs batch) = Inr b"
    by (auto simp: prepare_batch_logprob_def Let_def split: sum.splits if_splits)
  then have "input_mask b = map (map (\<lambda>t. t = pad)) (input_ids b)"
    by (rule prepare_loop_mask)
  then show ?thesis using i j by simp
qed

text \<open>
  \<^bold>\<open>C2\<close>. The specification reads \<^verbatim>\<open>input_mask\<close> as true exactly at real tokens and
  false exactly at padding. The log-likelihood path computes
  \<^verbatim>\<open>mask = tokens == pad_token_id\<close>: the mask is true at the positions that hold the pad
  token (lemma \<open>prepare_batch_logprob_mask\<close>). For the context \<open>[5]\<close> and continuation
  \<open>[6, 7]\<close> padded to three columns with pad token \<open>0\<close> the row is \<open>[5, 6, 0]\<close> and its
  mask is \<open>[False, False, True]\<close>: false at the two real tokens, true at the padding.
\<close>

theorem prepare_batch_logprob_mask_marks_padding:
  "prepare_batch_logprob 0 2048 [\<lparr>tokenized_context = [5], tokenized_continuation = [6, 7]\<rparr>] (Some 3) (Some 3)
    = Inr \<lparr>input_ids = [[5, 6, 0]], input_mask = [[False, False, True]],
            input_lengths = [2], truncated = [0], padded = [1]\<rparr>"
  by (simp add: prepare_batch_logprob_def logprob_inputs_def py_from_def py_upto_def)

subsection \<open>Generation budget\<close>

text \<open>
  When the context exactly fills the model's window no column remains, and a budget can
  not be both at most \<open>max_length - context_size = 0\<close> and at least \<open>1\<close>: for a requested
  \<^verbatim>\<open>generation_size\<close> the code keeps its floor of one token.
\<close>

theorem max_new_tokens_counterexample:
  "max_new_tokens 4 4 (Some 5) = 1 \<and> max_new_tokens 4 4 (Some 5) > 4 - 4"
  by (simp add: max_new_tokens_def)

text \<open>
  \<^bold>\<open>C10\<close> (amended). If the context is wider than the model's maximum length the budget is
  exactly \<open>1\<close>. Otherwise a requested \<^verbatim>\<open>generation_size\<close> \<open>n\<close> gives the budget
  \<open>max 1 (min (max_length - context_size) n)\<close>: the request clamped to the remaining space,
  but never less than one token. Whenever at least one column remains, with or without a
  requested size, the budget is at least \<open>1\<close> and at most the remaining space.
\<close>

theorem max_new_tokens_budget:
  "(max_length < context_size \<longrightarrow> max_new_tokens max_length context_size g = 1)
 \<and> (context_size \<le> max_length \<longrightarrow>
       max_new_tokens max_length context_size (Some n) = max 1 (min (max_length - context_size) n))
 \<and> (context_size < max_length \<longrightarrow>
       1 \<le> max_new_tokens max_length context_size g
     \<and> max_new_tokens max_length context_size g \<le> max_length - context_size)"
  by (cases g) (auto simp: max_new_tokens_def Let_def)

theorem max_new_tokens_budget_witness:
  "max_new_tokens 10 12 (Some 3) = 1
 \<and> max_new_tokens 10 4 (Some 3) = 3
 \<and> max_new_tokens 10 4 (Some 30) \<le> 6
 \<and> 1 \<le> max_new_tokens 10 4 (Some 0)
 \<and> 1 \<le> max_new_tokens 10 4 None \<and> max_new_tokens 10 4 None \<le> 6"
  using max_new_tokens_budget [of 10 12 "Some 3" 3] max_new_tokens_budget [of 10 4 "Some 0" 3]
    max_new_tokens_budget [of 10 4 "Some 30" 30] max_new_tokens_budget [of 10 4 None 0]
  by simp

subsection \<open>Score extraction\<close>

lemma argmax_from_bounds:
  "best < i \<Longrightarrow> argmax_from best bv i xs < i + length xs"
proof (induction xs arbitrary: best bv i)
  case Nil
  then show ?case by simp
next
  case (Cons x xs)
  have "argmax_from i x (Suc i) xs < Suc i + length xs"
    by (rule Cons.IH) simp
  moreover have "argmax_from best bv (Suc i) xs < Suc i + length xs"
    by (rule Cons.IH) (use Cons.prems in simp)
  ultimately show ?case by simp
qed

lemma argmax_less: "row \<noteq> [] \<Longrightarrow> argmax row < length row"
  using argmax_from_bounds [of 0 1] by (cases row) (auto simp: argmax_def)

text \<open>\<open>argmax\<close> returns the index of a maximal entry, and the first such index, as
  \<^verbatim>\<open>torch.argmax\<close> does.\<close>

lemma argmax_from_first_max:
  assumes "best < length pre" and "bv = pre ! best"
    and "\<forall>j < length pre. pre ! j \<le> bv" and "\<forall>j < best. pre ! j < bv"
  shows "argmax_from best bv (length pre) xs < length (pre @ xs)
       \<and> (\<forall>j < length (pre @ xs). (pre @ xs) ! j \<le> (pre @ xs) ! argmax_from best bv (length pre) xs)
       \<and> (\<forall>j < argmax_from best bv (length pre) xs.
             (pre @ xs) ! j < (pre @ xs) ! argmax_from best bv (length pre) xs)"
  using assms
proof (induction xs arbitrary: pre best bv)
  case Nil
  then show ?case by simp
next
  case (Cons x xs)
  let ?pre = "pre @ [x]"
  have app: "pre @ x # xs = ?pre @ xs" by simp
  have len: "Suc (length pre) = length ?pre" by simp
  show ?case
  proof (cases "bv < x")
    case True
    have a: "length pre < length ?pre" by simp
    have b: "x = ?pre ! length pre" by simp
    have c: "\<forall>j < length ?pre. ?pre ! j \<le> x"
      using Cons.prems(3) True by (auto simp: nth_append less_Suc_eq intro: less_imp_le order_trans)
    have d: "\<forall>j < length pre. ?pre ! j < x"
      using Cons.prems(3) True by (auto simp: nth_append intro: le_less_trans)
    have eq: "argmax_from best bv (length pre) (x # xs) = argmax_from (length pre) x (length ?pre) xs"
      using True by simp
    show ?thesis
      unfolding app eq by (rule Cons.IH [OF a b c d])
  next
    case False
    have a: "best < length ?pre" using Cons.prems(1) by simp
    have b: "bv = ?pre ! best" using Cons.prems(1,2) by (simp add: nth_append)
    have c: "\<forall>j < length ?pre. ?pre ! j \<le> bv"
      using Cons.prems(3) False by (auto simp: nth_append less_Suc_eq)
    have d: "\<forall>j < best. ?pre ! j < bv"
      using Cons.prems(1,4) by (auto simp: nth_append)
    have eq: "argmax_from best bv (length pre) (x # xs) = argmax_from best bv (length ?pre) xs"
      using False by simp
    show ?thesis
      unfolding app eq by (rule Cons.IH [OF a b c d])
  qed
qed

lemma argmax_first_max:
  assumes "row \<noteq> []"
  shows "argmax row < length row"
    and "\<And>j. j < length row \<Longrightarrow> row ! j \<le> row ! argmax row"
    and "\<And>j. j < argmax row \<Longrightarrow> row ! j < row ! argmax row"
proof -
  from assms obtain x xs where row: "row = x # xs" by (cases row) auto
  have "argmax_from 0 x (length [x]) xs < length ([x] @ xs)
       \<and> (\<forall>j < length ([x] @ xs). ([x] @ xs) ! j \<le> ([x] @ xs) ! argmax_from 0 x (length [x]) xs)
       \<and> (\<forall>j < argmax_from 0 x (length [x]) xs.
             ([x] @ xs) ! j < ([x] @ xs) ! argmax_from 0 x (length [x]) xs)"
    by (rule argmax_from_first_max) simp_all
  then have r: "argmax row < length row
       \<and> (\<forall>j < length row. row ! j \<le> row ! argmax row)
       \<and> (\<forall>j < argmax row. row ! j < row ! argmax row)"
    by (simp add: row argmax_def)
  from r show "argmax row < length row" by simp
  from r show "\<And>j. j < length row \<Longrightarrow> row ! j \<le> row ! argmax row" by simp
  from r show "\<And>j. j < argmax row \<Longrightarrow> row ! j < row ! argmax row" by simp
qed

lemma gather_sum_nth:
  assumes len: "length cont_toks = length sel"
    and voc: "\<forall>k < length cont_toks. 0 \<le> cont_toks ! k \<and> cont_toks ! k < int (length (sel ! k))"
  shows "gather_sum sel cont_toks = Inr (\<Sum>k < length cont_toks. sel ! k ! nat (cont_toks ! k))"
proof -
  have no_bad: "\<not> list_ex (\<lambda>(row, t). t < 0 \<or> int (length row) \<le> t) (zip sel cont_toks)"
    using len voc by (fastforce simp: list_ex_iff in_set_zip)
  have "sum_list (map (\<lambda>(row, t). row ! nat t) (zip sel cont_toks))
      = (\<Sum>k = 0..<length cont_toks. sel ! k ! nat (cont_toks ! k))"
    using len by (simp add: sum_list_sum_nth)
  also have "\<dots> = (\<Sum>k < length cont_toks. sel ! k ! nat (cont_toks ! k))"
    by (simp add: atLeast0LessThan)
  finally show ?thesis
    using no_bad len by (simp add: gather_sum_def)
qed

lemma eq_all_nth:
  assumes len: "length cont_toks = length sel"
  shows "eq_all (map argmax sel) cont_toks = Inr (\<forall>k < length cont_toks. int (argmax (sel ! k)) = cont_toks ! k)"
  using len by (simp add: eq_all_def list_all2_conv_all_nth)

lemma score_row_aligned:
  assumes inplen: "inplen \<le> length cur_logits"
    and shape: "length cont \<le> inplen \<or> inplen = length cur_logits"
    and rows: "\<forall>row \<in> set cur_logits. length row = V"
    and voc: "\<forall>t \<in> set cont. 0 \<le> t \<and> t < int V"
  shows "score_row cur_logits cont inplen =
           Inr (\<Sum>k < min (length cont) inplen.
                   cur_logits ! (inplen - min (length cont) inplen + k) ! nat (cont ! k),
                \<forall>k < min (length cont) inplen.
                   int (argmax (cur_logits ! (inplen - min (length cont) inplen + k))) = cont ! k)"
proof (cases "length cont \<le> inplen")
  case True
  define sel where "sel = drop (inplen - length cont) (take inplen cur_logits)"
  have len: "length cont = length sel"
    using True inplen by (simp add: sel_def)
  have nth: "\<And>k. k < length cont \<Longrightarrow> sel ! k = cur_logits ! (inplen - length cont + k)"
    using True inplen by (simp add: sel_def)
  have set: "set sel \<subseteq> set cur_logits"
    unfolding sel_def by (meson set_drop_subset set_take_subset subset_trans)
  have voc': "\<forall>k < length cont. 0 \<le> cont ! k \<and> cont ! k < int (length (sel ! k))"
    using voc rows set len by (metis nth_mem subsetD)
  have nonempty: "[] \<notin> set sel"
  proof
    assume "[] \<in> set sel"
    then have "V = 0" using rows set by auto
    moreover from \<open>[] \<in> set sel\<close> have "cont \<noteq> []" using len by auto
    ultimately show False using voc by (cases cont) auto
  qed
  have "score_row cur_logits cont inplen =
      Inr (\<Sum>k < length cont. sel ! k ! nat (cont ! k), \<forall>k < length cont. int (argmax (sel ! k)) = cont ! k)"
    using True nonempty gather_sum_nth [OF len voc'] eq_all_nth [OF len]
    by (simp add: score_row_def sel_def [symmetric] Let_def)
  then show ?thesis using True nth by (simp add: min_def)
next
  case False
  with shape have full: "inplen = length cur_logits" by simp
  define toks where "toks = take inplen cont"
  have len: "length toks = length cur_logits"
    using False full by (simp add: toks_def)
  have nth: "\<And>k. k < inplen \<Longrightarrow> toks ! k = cont ! k"
    by (simp add: toks_def)
  have voc': "\<forall>k < length toks. 0 \<le> toks ! k \<and> toks ! k < int (length (cur_logits ! k))"
    using voc rows len False by (metis in_set_takeD nth_mem toks_def)
  have nonempty: "[] \<notin> set cur_logits"
  proof
    assume "[] \<in> set cur_logits"
    then have "V = 0" using rows by auto
    moreover have "cont \<noteq> []" using False by auto
    ultimately show False using voc by (cases cont) auto
  qed
  have "score_row cur_logits cont inplen =
      Inr (\<Sum>k < length toks. cur_logits ! k ! nat (toks ! k), \<forall>k < length toks. int (argmax (cur_logits ! k)) = toks ! k)"
    using False nonempty gather_sum_nth [OF len voc'] eq_all_nth [OF len]
    by (simp add: score_row_def toks_def [symmetric] Let_def)
  then show ?thesis using False nth len full by (simp add: min_def)
qed

lemma prepared_row_shape:
  assumes ret: "prepare_batch_logprob pad max_length batch (Some W) (Some W) = Inr b"
    and i: "i < length batch"
    and ctx: "tokenized_context (batch ! i) \<noteq> []"
  shows "input_lengths b ! i \<le> nat W
       \<and> (length (tokenized_continuation (batch ! i)) \<le> input_lengths b ! i \<or> input_lengths b ! i = nat W)"
proof -
  define orig where "orig = tokenized_context (batch ! i) @ butlast (tokenized_continuation (batch ! i))"
  from ret have loop: "prepare_loop pad W (Some W) (logprob_inputs batch) = Inr b"
    by (auto simp: prepare_batch_logprob_def split: sum.splits if_splits)
  have "logprob_inputs batch ! i \<in> set (logprob_inputs batch)"
    using i by (simp add: length_logprob_inputs)
  with prepare_loop_fields [OF loop] have "0 \<le> W"
    by (smt (verit) of_nat_0_le_iff)
  then have mc: "0 < W \<or> (W = 0 \<and> W = 0)" by auto
  from prepare_batch_logprob_rows_aux [OF ret mc i]
  have len: "input_lengths b ! i = min (length orig) (nat W)"
    by (simp only: orig_def)
  have "length (tokenized_continuation (batch ! i)) \<le> length orig"
    using ctx by (cases "tokenized_context (batch ! i)") (auto simp: orig_def)
  with len show ?thesis by (auto simp: min_def)
qed

text \<open>
  \<^bold>\<open>C4\<close>. Row \<open>i\<close> of a batch prepared by \<^verbatim>\<open>_loglikelihood_tokens\<close> (padding length
  and maximal context both the split's width \<open>W\<close>), with a non-empty tokenized context, log
  probabilities \<^verbatim>\<open>cur_logits\<close> of \<open>W\<close> columns over a vocabulary of \<open>V\<close> entries and
  continuation tokens inside the vocabulary. With \<open>n = min contlen inplen\<close> the score is the
  sum over \<open>k < n\<close> of the log-probability of continuation token \<open>k\<close> at logit position
  \<open>inplen - n + k\<close>: the positions \<open>[inplen - contlen, inplen)\<close> when the continuation fits,
  and the first \<open>inplen\<close> continuation tokens when it is longer than the input. The greedy
  flag is true iff the argmax at every one of these positions is the continuation token.
\<close>

theorem loglikelihood_row_score:
  assumes ret: "prepare_batch_logprob pad max_length batch (Some W) (Some W) = Inr b"
    and i: "i < length batch"
    and ctx: "tokenized_context (batch ! i) \<noteq> []"
    and cols: "length cur_logits = nat W"
    and rows: "\<forall>row \<in> set cur_logits. length row = V"
    and voc: "\<forall>t \<in> set (tokenized_continuation (batch ! i)). 0 \<le> t \<and> t < int V"
  shows "score_row cur_logits (tokenized_continuation (batch ! i)) (input_lengths b ! i) =
           Inr (\<Sum>k < min (length (tokenized_continuation (batch ! i))) (input_lengths b ! i).
                   cur_logits ! (input_lengths b ! i
                                  - min (length (tokenized_continuation (batch ! i))) (input_lengths b ! i) + k)
                              ! nat (tokenized_continuation (batch ! i) ! k),
                \<forall>k < min (length (tokenized_continuation (batch ! i))) (input_lengths b ! i).
                   int (argmax (cur_logits ! (input_lengths b ! i
                                  - min (length (tokenized_continuation (batch ! i))) (input_lengths b ! i) + k)))
                   = tokenized_continuation (batch ! i) ! k)"
proof -
  from prepared_row_shape [OF ret i ctx]
  have inplen: "input_lengths b ! i \<le> length cur_logits"
    and shape: "length (tokenized_continuation (batch ! i)) \<le> input_lengths b ! i
                \<or> input_lengths b ! i = length cur_logits"
    using cols by simp_all
  show ?thesis
    by (rule score_row_aligned [OF inplen shape rows voc])
qed

theorem loglikelihood_row_score_witness:
  "prepare_batch_logprob 0 2048
      [\<lparr>tokenized_context = [1], tokenized_continuation = [2, 0]\<rparr>,
       \<lparr>tokenized_context = [1], tokenized_continuation = [2, 0, 1, 2]\<rparr>] (Some 2) (Some 2)
    = Inr \<lparr>input_ids = [[1, 2], [0, 1]], input_mask = [[False, False], [True, False]],
            input_lengths = [2, 2], truncated = [0, 2], padded = [0, 0]\<rparr>
   \<and> score_row [[- 3, - 5, - 1], [- 2, - 7, - 9]] [2, 0] 2 = Inr (- 3, True)
   \<and> score_row [[- 3, - 5, - 1], [- 2, - 7, - 9]] [2, 0, 1, 2] 2 = Inr (- 3, True)
   \<and> score_row [[- 3, - 1, - 5], [- 2, - 7, - 9]] [2, 0, 1, 2] 2 = Inr (- 7, False)"
proof -
  let ?batch = "[\<lparr>tokenized_context = [1 :: int], tokenized_continuation = [2, 0 :: int]\<rparr>,
       \<lparr>tokenized_context = [1], tokenized_continuation = [2, 0, 1, 2]\<rparr>]"
  let ?b = "\<lparr>input_ids = [[1, 2], [0, 1 :: int]], input_mask = [[False, False], [True, False]],
            input_lengths = [2, 2 :: nat], truncated = [0, 2 :: int], padded = [0, 0 :: int]\<rparr>"
  let ?l = "[[- 3, - 5, - 1], [- 2, - 7, - 9 :: real]]"
  let ?m = "[[- 3, - 1, - 5], [- 2, - 7, - 9 :: real]]"
  have ret: "prepare_batch_logprob 0 2048 ?batch (Some 2) (Some 2) = Inr ?b"
    by (simp add: prepare_batch_logprob_def logprob_inputs_def py_from_def py_upto_def eval_nat_numeral)
  have i0: "(0 :: nat) < length ?batch" and i1: "(1 :: nat) < length ?batch" by simp_all
  have c0: "tokenized_context (?batch ! 0) \<noteq> []" and c1: "tokenized_context (?batch ! 1) \<noteq> []"
    by simp_all
  have cols: "length ?l = nat 2" "length ?m = nat 2" by simp_all
  have rows: "\<forall>row \<in> set ?l. length row = 3" "\<forall>row \<in> set ?m. length row = 3" by simp_all
  have v0: "\<forall>t \<in> set (tokenized_continuation (?batch ! 0)). 0 \<le> t \<and> t < int 3"
    and v1: "\<forall>t \<in> set (tokenized_continuation (?batch ! 1)). 0 \<le> t \<and> t < int 3"
    by simp_all
  have a: "argmax [- 3, - 5, - 1] = 2" "argmax [- 2, - 7, - 9] = 0" "argmax [- 3, - 1, - 5] = 1"
    by (simp_all add: argmax_def)
  have s: "{..<2 :: nat} = {0, 1}" by auto
  have all2: "\<And>P. (\<forall>k < Suc (Suc 0). P k) = (P 0 \<and> P (Suc 0))"
    by (auto simp: less_Suc_eq)
  from loglikelihood_row_score [OF ret i0 c0 cols(1) rows(1) v0]
       loglikelihood_row_score [OF ret i1 c1 cols(1) rows(1) v1]
       loglikelihood_row_score [OF ret i1 c1 cols(2) rows(2) v1]
       ret
  show ?thesis
    by (simp add: a s all2)
qed

subsection \<open>Single-token scoring\<close>

lemma foldr_max_Max: "xs \<noteq> [] \<Longrightarrow> foldr max xs (0 :: nat) = Max (set xs)"
proof (induction xs)
  case Nil
  then show ?case by simp
next
  case (Cons x xs)
  show ?case
  proof (cases "xs = []")
    case True
    then show ?thesis by simp
  next
    case False
    with Cons.IH show ?thesis by simp
  qed
qed

lemma foldr_max_ge: "n \<in> set xs \<Longrightarrow> n \<le> foldr max xs (0 :: nat)"
  by (induction xs) auto

lemma pad_sequence_nth:
  assumes "i < length sequences"
  shows "pad_sequence sequences v ! i =
           sequences ! i @ replicate (Max (set (map length sequences)) - length (sequences ! i)) v"
    and "length (pad_sequence sequences v ! i) = Max (set (map length sequences))"
proof -
  have ne: "map length sequences \<noteq> []" using assms by auto
  have le: "length (sequences ! i) \<le> foldr max (map length sequences) 0"
    using assms by (intro foldr_max_ge) simp
  show "pad_sequence sequences v ! i =
           sequences ! i @ replicate (Max (set (map length sequences)) - length (sequences ! i)) v"
    using assms by (simp add: pad_sequence_def Let_def foldr_max_Max [OF ne])
  show "length (pad_sequence sequences v ! i) = Max (set (map length sequences))"
    using assms le foldr_max_Max [OF ne] by (simp add: pad_sequence_def Let_def)
qed

lemma collect_Inr:
  "collect rs = Inr xs \<Longrightarrow> length xs = length rs \<and> (\<forall>i < length rs. rs ! i = Inr (xs ! i))"
proof (induction rs arbitrary: xs rule: collect.induct)
  case 1
  then show ?case by simp
next
  case (2 e rs)
  then show ?case by simp
next
  case (3 x rs)
  from "3.prems" obtain ys where ys: "collect rs = Inr ys" and xs: "xs = x # ys"
    by (auto split: sum.splits)
  from "3.IH" [OF ys] xs show ?case
    by (auto simp: nth_Cons split: nat.splits)
qed

lemma single_token_rows_nth:
  assumes rows: "single_token_rows model_output continuations inplens = Inr batch_probs"
    and i: "i < length batch_probs"
  shows "single_token_row (map log_softmax (model_output ! i)) (continuations ! i) (inplens ! i)
           = Inr (batch_probs ! i)"
proof -
  let ?zs = "zip continuations (zip model_output inplens)"
  note c = collect_Inr [OF rows [unfolded single_token_rows_def]]
  from c i have iz: "i < length ?zs" by simp
  with c have "(\<lambda>(continuation, out_row, inplen).
                     single_token_row (map log_softmax out_row) continuation inplen) (?zs ! i)
                = Inr (batch_probs ! i)"
    by (metis (no_types, lifting) length_map nth_map)
  moreover have "?zs ! i = (continuations ! i, model_output ! i, inplens ! i)"
    using iz by simp
  ultimately show ?thesis by simp
qed

lemma single_token_row_choices:
  assumes "single_token_row out_row continuation inplen = Inr probs"
  shows "length probs = length continuation"
  using assms
  by (auto simp: single_token_row_def cont_toks_tensor_def gather0_def split: sum.splits if_splits)

lemma single_token_row_values:
  assumes row: "single_token_row out_row continuation inplen = Inr probs"
    and pos: "0 < inplen" and k: "k < length continuation"
  shows "probs ! k = out_row ! (inplen - 1) ! nat (hd (continuation ! k))"
proof -
  from row pos have "py_nth out_row (int inplen - 1) = Inr (out_row ! (inplen - 1))"
    by (auto simp: single_token_row_def py_nth_def Let_def nat_diff_distrib' split: sum.splits if_splits)
  with row k show ?thesis
    by (auto simp: single_token_row_def cont_toks_tensor_def gather0_def split: sum.splits if_splits)
qed

text \<open>
  \<^bold>\<open>C9\<close> (amended). In a single process, row \<open>i\<close> of the padded candidate matrix is the
  vector of gathered log-probabilities of request \<open>i\<close> (one per choice) followed by the
  value \<open>-65504\<close> up to the common width, the largest number of choices in the batch: a
  position below the row's number of choices holds the gathered log-probability unchanged,
  every other position holds exactly \<open>-65504\<close>.
\<close>

theorem single_token_probs_padding:
  assumes ret: "single_token_batch_probs model_output continuations inplens = Inr res"
    and i: "i < length res" and k: "k < length (res ! i)"
  shows "\<exists>batch_probs.
           single_token_rows model_output continuations inplens = Inr batch_probs
         \<and> length res = length batch_probs
         \<and> length (res ! i) = Max (set (map length batch_probs))
         \<and> single_token_row (map log_softmax (model_output ! i)) (continuations ! i) (inplens ! i)
             = Inr (batch_probs ! i)
         \<and> length (batch_probs ! i) = length (continuations ! i)
         \<and> res ! i ! k = (if k < length (continuations ! i) then batch_probs ! i ! k else - 65504)"
proof -
  from ret obtain batch_probs where
    rows: "single_token_rows model_output continuations inplens = Inr batch_probs"
    and res: "res = pad_sequence batch_probs (- 65504)"
    by (auto simp: single_token_batch_probs_def split: sum.splits if_splits)
  have len: "length res = length batch_probs"
    by (simp add: res pad_sequence_def Let_def)
  with i have i': "i < length batch_probs" by simp
  note p = pad_sequence_nth [OF i', of "- 65504", folded res]
  note row = single_token_rows_nth [OF rows i']
  note n = single_token_row_choices [OF row]
  have "res ! i ! k = (if k < length (continuations ! i) then batch_probs ! i ! k else - 65504)"
    using k unfolding p(1) n [symmetric] by (simp add: nth_append)
  with rows len p(2) row n show ?thesis by blast
qed

theorem single_token_probs_padding_witness:
  "single_token_batch_probs [[[0, 0]], [[0, 0]]] [[[0], [1]], [[1]]] [1, 1]
     = Inr [[- ln 2, - ln 2], [- ln 2, - 65504]]
   \<and> length ([[- ln 2, - ln 2], [- ln 2, - 65504 :: real]] ! 1) = 2
   \<and> [[- ln 2, - ln 2], [- ln 2, - 65504 :: real]] ! 1 ! 1 = - 65504
   \<and> [[- ln 2, - ln 2], [- ln 2, - 65504 :: real]] ! 1 ! 0 = - ln 2"
proof -
  let ?res = "[[- ln 2, - ln 2], [- ln 2, - 65504 :: real]]"
  have rows: "single_token_rows [[[0, 0]], [[0, 0]]] [[[0], [1]], [[1]]] [1, 1]
               = Inr [[- ln 2, - ln 2], [- ln 2]]"
    by (simp add: single_token_rows_def single_token_row_def log_softmax_def py_nth_def
        cont_toks_tensor_def gather0_def)
  have ret: "single_token_batch_probs [[[0, 0]], [[0, 0]]] [[[0], [1]], [[1]]] [1, 1] = Inr ?res"
    unfolding single_token_batch_probs_def rows by (simp add: pad_sequence_def)
  have i: "(1 :: nat) < length ?res" by simp
  have k1: "(1 :: nat) < length (?res ! 1)" and k0: "(0 :: nat) < length (?res ! 1)" by simp_all
  from single_token_probs_padding [OF ret i k1, unfolded rows]
    single_token_probs_padding [OF ret i k0, unfolded rows] ret
  show ?thesis by simp
qed

text \<open>
  Nothing bounds a gathered log-probability from below: for the logits \<open>[0, -70000]\<close> the
  log-probability of the second token is below \<open>-70000\<close>, hence below the padding value.
\<close>

theorem single_token_probs_below_sentinel:
  "single_token_batch_probs [[[0, - 70000]]] [[[1]]] [1]
     = Inr [[- 70000 - ln (1 + exp (- 70000))]]
   \<and> - 70000 - ln (1 + exp (- 70000)) < (- 65504 :: real)"
proof -
  have "(0 :: real) < ln (1 + exp (- 70000))"
    by (rule ln_gt_zero) simp
  then have lt: "- 70000 - ln (1 + exp (- 70000)) < (- 65504 :: real)" by simp
  have "single_token_batch_probs [[[0, - 70000]]] [[[1]]] [1]
     = Inr [[- 70000 - ln (1 + exp (- 70000))]]"
    by (simp add: single_token_batch_probs_def single_token_rows_def single_token_row_def
        log_softmax_def py_nth_def cont_toks_tensor_def gather0_def pad_sequence_def)
  with lt show ?thesis by simp
qed

subsection \<open>Batch-size probing\<close>

lemma greedy_until_splits_doubles:
  assumes "greedy_until_splits forward_batch (Some bs) start lens = Inr probes"
    and "Suc k < length probes"
  shows "fst (probes ! Suc k) = 2 * snd (probes ! k)"
  using assms
proof (induction lens arbitrary: start probes k)
  case Nil
  then show ?case by simp
next
  case (Cons len rest)
  from Cons.prems(1) obtain batch_size tl where
    tl: "greedy_until_splits forward_batch (Some bs) (batch_size * 2) rest = Inr tl"
    and probes: "probes = (start, batch_size) # tl"
    by (auto split: sum.splits)
  show ?case
  proof (cases k)
    case 0
    with Cons.prems(2) probes obtain p tl' where tl': "tl = p # tl'" by (cases tl) auto
    with tl obtain len' rest' where "rest = len' # rest'" by (cases rest) auto
    with tl tl' have "fst p = batch_size * 2" by (auto split: sum.splits)
    with 0 probes tl' show ?thesis by simp
  next
    case (Suc k')
    with Cons.prems(2) probes have "Suc k' < length tl" by simp
    from Cons.IH [OF tl this] Suc probes show ?thesis by simp
  qed
qed

lemma loglikelihood_tokens_splits_eq:
  "loglikelihood_tokens_splits forward_batch override_bs start lens
     = greedy_until_splits forward_batch override_bs start lens"
  by (induction lens arbitrary: start) (auto split: sum.splits)

lemma loglikelihood_tokens_splits_doubles:
  assumes "loglikelihood_tokens_splits forward_batch (Some bs) start lens = Inr probes"
    and "Suc k < length probes"
  shows "fst (probes ! Suc k) = 2 * snd (probes ! k)"
  using assms unfolding loglikelihood_tokens_splits_eq by (rule greedy_until_splits_doubles)

text \<open>
  \<^bold>\<open>C6\<close>. In \<^verbatim>\<open>greedy_until\<close> and \<^verbatim>\<open>_loglikelihood_tokens\<close> the probe of every split after
  the first starts from twice the batch size of the split before it (lemmas
  \<open>greedy_until_splits_doubles\<close> and \<open>loglikelihood_tokens_splits_doubles\<close>). In
  \<^verbatim>\<open>_loglikelihood_single_token\<close> it does not: with a device that fits eight rows and no
  caller override, the second split is probed from \<open>512\<close> again, not from \<open>16\<close>.
\<close>

theorem single_token_path_restarts_at_default:
  "loglikelihood_single_token_batch_sizes (\<lambda>start len. Inr (min start 8)) (Some (- 1)) [100, 50]
     = Inr [(512, 8), (512, 8)]
   \<and> greedy_until_batch_sizes (\<lambda>start len. Inr (min start 8)) (Some (- 1)) [100, 50]
     = Inr [(512, 8), (16, 8)]
   \<and> loglikelihood_tokens_batch_sizes (\<lambda>start len. Inr (min start 8)) (Some (- 1)) [100, 50]
     = Inr [(512, 8), (16, 8)]"
  by (simp add: loglikelihood_single_token_batch_sizes_def greedy_until_batch_sizes_def
      loglikelihood_tokens_batch_sizes_def get_batch_size_def STARTING_BATCH_SIZE_def)

subsection \<open>Single-token requests\<close>

lemma collect_map_Inr:
  "(\<forall>x \<in> set xs. \<exists>y. f x = Inr y) \<Longrightarrow> \<exists>ys. collect (map f xs) = Inr ys \<and> map Inr ys = map f xs"
proof (induction xs)
  case Nil
  then show ?case by simp
next
  case (Cons x xs)
  then obtain y ys where "f x = Inr y" and "collect (map f xs) = Inr ys" and "map Inr ys = map f xs"
    by auto
  then show ?case by simp
qed

lemma collect_map_Inl:
  assumes "x \<in> set xs" and "f x = Inl e" and "\<forall>x' \<in> set xs. \<forall>e'. f x' = Inl e' \<longrightarrow> e' = e"
  shows "collect (map f xs) = Inl e"
  using assms
proof (induction xs)
  case Nil
  then show ?case by simp
next
  case (Cons a xs)
  show ?case
  proof (cases "f a")
    case (Inl e')
    with Cons.prems(3) have "e' = e" by simp
    with Inl show ?thesis by simp
  next
    case (Inr y)
    with Cons.prems have "x \<in> set xs" by auto
    from Cons.IH [OF this Cons.prems(2)] Cons.prems(3) have "collect (map f xs) = Inl e" by simp
    with Inr show ?thesis by simp
  qed
qed

lemma check_start_space_total:
  assumes "start_space = None \<or> c \<noteq> []"
  shows "\<exists>s. check_continuations_start_space start_space c = Inr s"
  using assms
  by (cases start_space; cases c) (auto simp: check_continuations_start_space_def)

lemma tokenize_single_token_request_cases:
  assumes ok: "start_space = None \<or> [] \<notin> set (choices request)"
  shows "(\<exists>c \<in> set (choices request). \<exists>s. check_continuations_start_space start_space c = Inr s
              \<and> 1 < length (tok_encode_plain s))
           \<and> tokenize_single_token_request tok_encode tok_encode_plain eos start_space request = Inl ValueError
       \<or> \<not> (\<exists>c \<in> set (choices request). \<exists>s. check_continuations_start_space start_space c = Inr s
              \<and> 1 < length (tok_encode_plain s))
           \<and> (\<exists>request'. tokenize_single_token_request tok_encode tok_encode_plain eos start_space request
                 = Inr request'
               \<and> (\<forall>c \<in> set (st_tokenized_continuation request'). length c \<le> 1))"
proof -
  have "\<forall>c \<in> set (choices request). \<exists>s. check_continuations_start_space start_space c = Inr s"
    using ok check_start_space_total by (metis)
  from collect_map_Inr [OF this] obtain continuations where
    col: "collect (map (check_continuations_start_space start_space) (choices request)) = Inr continuations"
    and conts: "map Inr continuations = map (check_continuations_start_space start_space) (choices request)"
    by blast
  have mem: "(\<exists>c \<in> set (choices request). \<exists>s. check_continuations_start_space start_space c = Inr s
              \<and> 1 < length (tok_encode_plain s))
          = (\<exists>s \<in> set continuations. 1 < length (tok_encode_plain s))"
  proof
    assume "\<exists>c \<in> set (choices request). \<exists>s. check_continuations_start_space start_space c = Inr s
              \<and> 1 < length (tok_encode_plain s)"
    then obtain c s where c: "c \<in> set (choices request)"
      and s: "check_continuations_start_space start_space c = Inr s" "1 < length (tok_encode_plain s)"
      by blast
    from c s(1) have "Inr s \<in> set (map (check_continuations_start_space start_space) (choices request))"
      by force
    then have "Inr s \<in> set (map Inr continuations :: (error + string) list)" by (simp only: conts)
    then have "s \<in> set continuations" by auto
    with s(2) show "\<exists>s \<in> set continuations. 1 < length (tok_encode_plain s)" by blast
  next
    assume "\<exists>s \<in> set continuations. 1 < length (tok_encode_plain s)"
    then obtain s where s: "s \<in> set continuations" "1 < length (tok_encode_plain s)" by blast
    then have "(Inr s :: error + string) \<in> set (map Inr continuations)" by simp
    then have "Inr s \<in> set (map (check_continuations_start_space start_space) (choices request))"
      by (simp only: conts)
    then obtain c where "c \<in> set (choices request)" "check_continuations_start_space start_space c = Inr s"
      by auto
    with s(2) show "\<exists>c \<in> set (choices request). \<exists>s. check_continuations_start_space start_space c = Inr s
              \<and> 1 < length (tok_encode_plain s)" by blast
  qed
  show ?thesis
    unfolding mem
    by (auto simp: tokenize_single_token_request_def col Let_def list_ex_iff not_less)
qed

text \<open>
  \<^bold>\<open>C8\<close>. Provided no choice is the empty string while the start-space option is set (the
  only other way the loop can raise), \<^verbatim>\<open>loglikelihood_single_token\<close> raises
  \<^verbatim>\<open>ValueError\<close>, and returns no response at all, if and only if some request has a choice
  whose continuation (after the start-space adjustment) is encoded without special tokens
  to more than one token; otherwise every request is tokenized, every choice has at most
  one token, and the result is that of \<^verbatim>\<open>_loglikelihood_single_token\<close> on the tokenized
  requests.
\<close>

theorem loglikelihood_single_token_multi_token_error:
  assumes ok: "start_space = None \<or> (\<forall>r \<in> set requests. [] \<notin> set (choices r))"
  shows "((\<exists>r \<in> set requests. \<exists>c \<in> set (choices r). \<exists>s.
             check_continuations_start_space start_space c = Inr s \<and> 1 < length (tok_encode_plain s))
          \<longrightarrow> tokenize_single_token_requests tok_encode tok_encode_plain eos start_space requests
                = Inl ValueError
            \<and> loglikelihood_single_token tok_encode tok_encode_plain eos start_space score requests
                = Inl ValueError)
       \<and> (\<not> (\<exists>r \<in> set requests. \<exists>c \<in> set (choices r). \<exists>s.
             check_continuations_start_space start_space c = Inr s \<and> 1 < length (tok_encode_plain s))
          \<longrightarrow> (\<exists>tokenized.
                 tokenize_single_token_requests tok_encode tok_encode_plain eos start_space requests
                   = Inr tokenized
               \<and> length tokenized = length requests
               \<and> (\<forall>r' \<in> set tokenized. \<forall>c \<in> set (st_tokenized_continuation r'). length c \<le> 1)
               \<and> loglikelihood_single_token tok_encode tok_encode_plain eos start_space score requests
                   = score tokenized))"
proof -
  let ?f = "tokenize_single_token_request tok_encode tok_encode_plain eos start_space"
  let ?multi = "\<lambda>r. \<exists>c \<in> set (choices r). \<exists>s.
             check_continuations_start_space start_space c = Inr s \<and> 1 < length (tok_encode_plain s)"
  have cases: "\<And>r. r \<in> set requests \<Longrightarrow>
      ?multi r \<and> ?f r = Inl ValueError
    \<or> \<not> ?multi r \<and> (\<exists>r'. ?f r = Inr r' \<and> (\<forall>c \<in> set (st_tokenized_continuation r'). length c \<le> 1))"
    using ok by (intro tokenize_single_token_request_cases) auto
  have only: "\<forall>r \<in> set requests. \<forall>e. ?f r = Inl e \<longrightarrow> e = ValueError"
    using cases by fastforce
  show ?thesis
  proof (intro conjI impI)
    assume "\<exists>r \<in> set requests. ?multi r"
    then obtain r where r: "r \<in> set requests" "?multi r" by blast
    with cases have "?f r = Inl ValueError" by blast
    from collect_map_Inl [OF r(1) this only]
    show stage: "tokenize_single_token_requests tok_encode tok_encode_plain eos start_space requests
                = Inl ValueError"
      by (simp add: tokenize_single_token_requests_def)
    then show "loglikelihood_single_token tok_encode tok_encode_plain eos start_space score requests
                = Inl ValueError"
      by (simp add: loglikelihood_single_token_def)
  next
    assume none: "\<not> (\<exists>r \<in> set requests. ?multi r)"
    with cases have all: "\<forall>r \<in> set requests. \<exists>r'. ?f r = Inr r'" by blast
    from collect_map_Inr [OF all] obtain tokenized where
      col: "collect (map ?f requests) = Inr tokenized" and eq: "map Inr tokenized = map ?f requests"
      by blast
    have len: "length tokenized = length requests"
      using eq by (metis length_map)
    have short: "\<forall>r' \<in> set tokenized. \<forall>c \<in> set (st_tokenized_continuation r'). length c \<le> 1"
    proof
      fix r' assume "r' \<in> set tokenized"
      then have "(Inr r' :: error + LoglikelihoodSingleTokenRequest) \<in> set (map Inr tokenized)" by simp
      then have "Inr r' \<in> set (map ?f requests)" by (simp only: eq)
      then obtain r where r: "r \<in> set requests" "?f r = Inr r'" by auto
      with cases [OF r(1)] show "\<forall>c \<in> set (st_tokenized_continuation r'). length c \<le> 1" by auto
    qed
    have stage: "tokenize_single_token_requests tok_encode tok_encode_plain eos start_space requests
                   = Inr tokenized"
      using col by (simp add: tokenize_single_token_requests_def)
    then have "loglikelihood_single_token tok_encode tok_encode_plain eos start_space score requests
                   = score tokenized"
      by (simp add: loglikelihood_single_token_def)
    with stage len short
    show "\<exists>tokenized.
                 tokenize_single_token_requests tok_encode tok_encode_plain eos start_space requests
                   = Inr tokenized
               \<and> length tokenized = length requests
               \<and> (\<forall>r' \<in> set tokenized. \<forall>c \<in> set (st_tokenized_continuation r'). length c \<le> 1)
               \<and> loglikelihood_single_token tok_encode tok_encode_plain eos start_space score requests
                   = score tokenized"
      by blast
  qed
qed

theorem loglikelihood_single_token_multi_token_error_witness:
  "loglikelihood_single_token (map (\<lambda>c. int (of_char c))) (map (\<lambda>c. int (of_char c))) 2 None
       (\<lambda>rs. Inr (map st_tokenized_continuation rs))
       [\<lparr>st_context = ''q'', choices = [''A'', ''BC''], st_tokenized_context = [],
         st_tokenized_continuation = []\<rparr>]
     = Inl ValueError
   \<and> loglikelihood_single_token (map (\<lambda>c. int (of_char c))) (map (\<lambda>c. int (of_char c))) 2 None
       (\<lambda>rs. Inr (map st_tokenized_continuation rs))
       [\<lparr>st_context = ''q'', choices = [''A'', ''B''], st_tokenized_context = [],
         st_tokenized_continuation = []\<rparr>]
     = Inr [[[65], [66]]]"
proof -
  let ?enc = "map (\<lambda>c. int (of_char c)) :: string \<Rightarrow> int list"
  let ?score = "\<lambda>rs. Inr (map st_tokenized_continuation rs) :: error + int list list list"
  let ?bad = "[\<lparr>st_context = ''q'', choices = [''A'', ''BC''], st_tokenized_context = [],
         st_tokenized_continuation = []\<rparr>]"
  let ?good = "[\<lparr>st_context = ''q'', choices = [''A'', ''B''], st_tokenized_context = [],
         st_tokenized_continuation = []\<rparr>]"
  have ok: "\<And>rs. (None :: bool option) = None \<or> (\<forall>r \<in> set rs. [] \<notin> set (choices r))" by simp
  have good: "tokenize_single_token_requests ?enc ?enc 2 None ?good
     = Inr [\<lparr>st_context = ''q'', choices = [''A'', ''B''], st_tokenized_context = [113],
         st_tokenized_continuation = [[65], [66]]\<rparr>]"
    by (simp add: tokenize_single_token_requests_def tokenize_single_token_request_def
        check_continuations_start_space_def)
  from loglikelihood_single_token_multi_token_error [OF ok, of ?bad ?enc ?enc 2 ?score]
  have bad: "loglikelihood_single_token ?enc ?enc 2 None ?score ?bad = Inl ValueError"
    by (simp add: check_continuations_start_space_def)
  from loglikelihood_single_token_multi_token_error [OF ok, of ?good ?enc ?enc 2 ?score]
  have "loglikelihood_single_token ?enc ?enc 2 None ?score ?good = Inr [[[65], [66]]]"
    by (simp add: check_continuations_start_space_def good)
  with bad show ?thesis by simp
qed

subsection \<open>The multi-token stop criterion\<close>

lemma update_done_tracker_ok:
  assumes "i + length tracker \<le> length toks"
  shows "\<exists>tracker'. update_done_tracker stop toks i tracker = Inr tracker'
       \<and> length tracker' = length tracker
       \<and> (\<forall>k < length tracker. tracker' ! k = (tracker ! k \<or> sublist stop (toks ! (i + k))))"
  using assms
proof (induction tracker arbitrary: i)
  case Nil
  then show ?case by simp
next
  case (Cons d rest)
  from Cons.prems have "Suc i + length rest \<le> length toks" by simp
  from Cons.IH [OF this] obtain rest' where
    r: "update_done_tracker stop toks (Suc i) rest = Inr rest'"
    "length rest' = length rest"
    "\<forall>k < length rest. rest' ! k = (rest ! k \<or> sublist stop (toks ! (Suc i + k)))"
    by blast
  from Cons.prems have i: "i < length toks" by simp
  show ?case
    using r i by (auto simp: nth_Cons split: nat.splits)
qed


lemma MultiTokenEOSCriteria_call_ok:
  assumes "length (done_tracker c) \<le> length ids"
  shows "\<exists>tracker. MultiTokenEOSCriteria_call decode c ids
             = Inr (c\<lparr>done_tracker := tracker\<rparr>, \<forall>i < length (done_tracker c). tracker ! i)
       \<and> length tracker = length (done_tracker c)
       \<and> (\<forall>i < length (done_tracker c).
             tracker ! i = (done_tracker c ! i \<or> window_has_stop decode c (ids ! i)))"
proof -
  let ?toks = "map (\<lambda>row. decode (lookback_ids c row)) ids"
  have "0 + length (done_tracker c) \<le> length ?toks" using assms by simp
  from update_done_tracker_ok [OF this, of "sequence c"] obtain tracker where
    t: "update_done_tracker (sequence c) ?toks 0 (done_tracker c) = Inr tracker"
    "length tracker = length (done_tracker c)"
    "\<forall>k < length (done_tracker c). tracker ! k = (done_tracker c ! k \<or> sublist (sequence c) (?toks ! k))"
    by auto
  have all: "list_all (\<lambda>d. d) tracker = (\<forall>i < length (done_tracker c). tracker ! i)"
    using t(2) by (simp add: list_all_length)
  have hit: "\<forall>i < length (done_tracker c).
             tracker ! i = (done_tracker c ! i \<or> window_has_stop decode c (ids ! i))"
    using t(3) assms by (simp add: window_has_stop_def)
  have "MultiTokenEOSCriteria_call decode c ids
             = Inr (c\<lparr>done_tracker := tracker\<rparr>, \<forall>i < length (done_tracker c). tracker ! i)"
    using t(1) all by (simp add: MultiTokenEOSCriteria_call_def)
  with t(2) hit show ?thesis by blast
qed

lemma window_has_stop_tracker [simp]:
  "window_has_stop decode (c\<lparr>done_tracker := t\<rparr>) row = window_has_stop decode c row"
  by (simp add: window_has_stop_def lookback_ids_def)

lemma generation_steps_tracker:
  assumes "\<forall>ids \<in> set steps. length (done_tracker c) \<le> length ids"
  shows "\<exists>tracker flags.
           generation_steps decode c steps = Inr (c\<lparr>done_tracker := tracker\<rparr>, flags)
         \<and> length flags = length steps
         \<and> length tracker = length (done_tracker c)
         \<and> (\<forall>i < length (done_tracker c).
               tracker ! i = (done_tracker c ! i \<or> (\<exists>j < length steps. window_has_stop decode c (steps ! j ! i))))
         \<and> (\<forall>j < length steps.
               flags ! j = (\<forall>i < length (done_tracker c).
                              done_tracker c ! i \<or> (\<exists>j' < Suc j. window_has_stop decode c (steps ! j' ! i))))"
  using assms
proof (induction steps arbitrary: c)
  case Nil
  have "c\<lparr>done_tracker := done_tracker c\<rparr> = c" by simp
  then show ?case by (intro exI [of _ "done_tracker c"] exI [of _ "[]"]) simp
next
  case (Cons ids later)
  let ?n = "length (done_tracker c)"
  from Cons.prems have len: "?n \<le> length ids" by simp
  from MultiTokenEOSCriteria_call_ok [OF len, of decode] obtain t1 where
    call: "MultiTokenEOSCriteria_call decode c ids = Inr (c\<lparr>done_tracker := t1\<rparr>, \<forall>i < ?n. t1 ! i)"
    and l1: "length t1 = ?n"
    and t1: "\<forall>i < ?n. t1 ! i = (done_tracker c ! i \<or> window_has_stop decode c (ids ! i))"
    by blast
  let ?c1 = "c\<lparr>done_tracker := t1\<rparr>"
  have "\<forall>ids' \<in> set later. length (done_tracker ?c1) \<le> length ids'"
    using Cons.prems l1 by simp
  from Cons.IH [OF this] obtain t2 flags where
    rec: "generation_steps decode ?c1 later = Inr (?c1\<lparr>done_tracker := t2\<rparr>, flags)"
    and lf: "length flags = length later"
    and l2: "length t2 = ?n"
    and t2: "\<forall>i < ?n. t2 ! i = (t1 ! i \<or> (\<exists>j < length later. window_has_stop decode c (later ! j ! i)))"
    and fl: "\<forall>j < length later.
               flags ! j = (\<forall>i < ?n. t1 ! i \<or> (\<exists>j' < Suc j. window_has_stop decode c (later ! j' ! i)))"
    using l1 by auto
  have res: "generation_steps decode c (ids # later)
      = Inr (c\<lparr>done_tracker := t2\<rparr>, (\<forall>i < ?n. t1 ! i) # flags)"
    using call rec by simp
  have tr: "\<forall>i < ?n. t2 ! i = (done_tracker c ! i
              \<or> (\<exists>j < length (ids # later). window_has_stop decode c ((ids # later) ! j ! i)))"
    using t1 t2 by (auto simp: Ex_less_Suc2)
  have fls: "\<forall>j < length (ids # later).
               ((\<forall>i < ?n. t1 ! i) # flags) ! j = (\<forall>i < ?n.
                  done_tracker c ! i \<or> (\<exists>j' < Suc j. window_has_stop decode c ((ids # later) ! j' ! i)))"
  proof (intro allI impI)
    fix j assume j: "j < length (ids # later)"
    show "((\<forall>i < ?n. t1 ! i) # flags) ! j = (\<forall>i < ?n.
                  done_tracker c ! i \<or> (\<exists>j' < Suc j. window_has_stop decode c ((ids # later) ! j' ! i)))"
    proof (cases j)
      case 0
      then show ?thesis using t1 by simp
    next
      case (Suc j0)
      with j have "j0 < length later" by simp
      with fl have "flags ! j0 = (\<forall>i < ?n. t1 ! i \<or> (\<exists>j' < Suc j0. window_has_stop decode c (later ! j' ! i)))"
        by blast
      also have "\<dots> = (\<forall>i < ?n. done_tracker c ! i
            \<or> (\<exists>j' < Suc (Suc j0). window_has_stop decode c ((ids # later) ! j' ! i)))"
        using t1 by (subst (2) Ex_less_Suc2) auto
      finally show ?thesis using Suc by simp
    qed
  qed
  show ?case
    using res lf l2 tr fls by (intro exI [of _ t2] exI [of _ "(\<forall>i < ?n. t1 ! i) # flags"]) simp
qed

lemma lookback_ids_window:
  assumes "0 < sequence_id_len c"
  shows "lookback_ids c row =
           drop (length (drop (initial_decoder_input_length c) row) - sequence_id_len c)
                (drop (initial_decoder_input_length c) row)"
    and "length (lookback_ids c row)
           = min (sequence_id_len c) (length row - initial_decoder_input_length c)"
proof -
  have pos: "0 < int (sequence_id_len c)" using assms by simp
  show w: "lookback_ids c row =
           drop (length (drop (initial_decoder_input_length c) row) - sequence_id_len c)
                (drop (initial_decoder_input_length c) row)"
    unfolding lookback_ids_def py_from_neg_pos [OF pos] by simp
  show "length (lookback_ids c row)
           = min (sequence_id_len c) (length row - initial_decoder_input_length c)"
    unfolding w length_drop by arith
qed

text \<open>
  \<^bold>\<open>C7\<close>. A criterion freshly built for a batch of \<open>batch_size\<close> rows is called on the
  \<^verbatim>\<open>input_ids\<close> of successive generation steps, each with at least \<open>batch_size\<close> rows.
  Every call returns; the flag returned at step \<open>j\<close> is true iff every row has had, at step
  \<open>j\<close> or at an earlier step, a decoded trailing window containing the stop sequence. So a
  row is done from the first such step on and never reverts, and the criterion signals a
  halt exactly when all rows are done. For a stop sequence of at least one token the window
  of a row is the last \<open>sequence_id_len\<close> newly generated tokens (all of them while fewer
  have been generated).
\<close>

theorem stop_criterion_halts_iff_all_done:
  assumes rows: "\<forall>ids \<in> set steps. batch_size \<le> length ids"
  shows "\<exists>c' flags.
           generation_steps decode
             (MultiTokenEOSCriteria_init encode stop (batch_size, initial_length)) steps = Inr (c', flags)
         \<and> length flags = length steps
         \<and> length (done_tracker c') = batch_size
         \<and> (\<forall>i < batch_size.
               done_tracker c' ! i =
                 (\<exists>j < length steps.
                    window_has_stop decode
                      (MultiTokenEOSCriteria_init encode stop (batch_size, initial_length)) (steps ! j ! i)))
         \<and> (\<forall>j < length steps.
               flags ! j =
                 (\<forall>i < batch_size. \<exists>j' < Suc j.
                    window_has_stop decode
                      (MultiTokenEOSCriteria_init encode stop (batch_size, initial_length)) (steps ! j' ! i)))
         \<and> (0 < length (encode stop) \<longrightarrow>
              (\<forall>row. lookback_ids (MultiTokenEOSCriteria_init encode stop (batch_size, initial_length)) row
                       = drop (length (drop initial_length row) - length (encode stop))
                              (drop initial_length row)))"
proof -
  define c0 where "c0 = MultiTokenEOSCriteria_init encode stop (batch_size, initial_length)"
  have n: "length (done_tracker c0) = batch_size"
    and f: "\<And>i. i < batch_size \<Longrightarrow> \<not> done_tracker c0 ! i"
    and il: "initial_decoder_input_length c0 = initial_length"
    and sl: "sequence_id_len c0 = length (encode stop)"
    by (simp_all add: c0_def MultiTokenEOSCriteria_init_def)
  have "\<forall>ids \<in> set steps. length (done_tracker c0) \<le> length ids"
    using rows n by simp
  from generation_steps_tracker [OF this, of decode] obtain tracker flags where
    run: "generation_steps decode c0 steps = Inr (c0\<lparr>done_tracker := tracker\<rparr>, flags)"
    and lf: "length flags = length steps"
    and lt: "length tracker = batch_size"
    and tr: "\<forall>i < batch_size.
               tracker ! i = (done_tracker c0 ! i \<or> (\<exists>j < length steps. window_has_stop decode c0 (steps ! j ! i)))"
    and fl: "\<forall>j < length steps.
               flags ! j = (\<forall>i < batch_size.
                              done_tracker c0 ! i \<or> (\<exists>j' < Suc j. window_has_stop decode c0 (steps ! j' ! i)))"
    unfolding n by blast
  have tr': "\<forall>i < batch_size.
      done_tracker (c0\<lparr>done_tracker := tracker\<rparr>) ! i
        = (\<exists>j < length steps. window_has_stop decode c0 (steps ! j ! i))"
    using tr f by simp
  have fl': "\<forall>j < length steps.
      flags ! j = (\<forall>i < batch_size. \<exists>j' < Suc j. window_has_stop decode c0 (steps ! j' ! i))"
    using fl f by simp
  have win: "0 < length (encode stop) \<longrightarrow>
              (\<forall>row. lookback_ids c0 row
                       = drop (length (drop initial_length row) - length (encode stop))
                              (drop initial_length row))"
    using lookback_ids_window(1) [of c0] by (simp add: il sl)
  have lt': "length (done_tracker (c0\<lparr>done_tracker := tracker\<rparr>)) = batch_size"
    using lt by simp
  show ?thesis
    unfolding c0_def [symmetric]
    using run lf lt' tr' fl' win by blast
qed

theorem stop_criterion_halts_iff_all_done_witness:
  "2 \<le> length [[0, 97], [0, 120 :: int]] \<and> 2 \<le> length [[0, 97, 98], [0, 120, 97 :: int]]
   \<and> 2 \<le> length [[0, 97, 98, 99], [0, 120, 97, 98 :: int]]
   \<and> generation_steps
        (\<lambda>ts. concat (map (\<lambda>t. if t = 97 then ''a'' else if t = 98 then ''b'' else ''x'') ts))
        (MultiTokenEOSCriteria_init (map (\<lambda>c. int (of_char c))) ''ab'' (2, 1))
        [[[0, 97], [0, 120]], [[0, 97, 98], [0, 120, 97]], [[0, 97, 98, 99], [0, 120, 97, 98]]]
      = Inr (\<lparr>initial_decoder_input_length = 1, done_tracker = [True, True], sequence = ''ab'',
               sequence_id_len = 2\<rparr>, [False, False, True])"
proof -
  let ?steps = "[[[0, 97], [0, 120]], [[0, 97, 98], [0, 120, 97]], [[0, 97, 98, 99], [0, 120, 97, 98 :: int]]]"
  let ?decode = "\<lambda>ts. concat (map (\<lambda>t :: int. if t = 97 then ''a'' else if t = 98 then ''b'' else ''x'') ts)"
  let ?c0 = "MultiTokenEOSCriteria_init (map (\<lambda>c. int (of_char c))) ''ab'' (2, 1)"
  have rows: "\<forall>ids \<in> set ?steps. 2 \<le> length ids" by simp
  from stop_criterion_halts_iff_all_done [OF rows, of ?decode "map (\<lambda>c. int (of_char c))" "''ab''" 1]
  obtain c' flags where run: "generation_steps ?decode ?c0 ?steps = Inr (c', flags)"
    by blast
  have direct: "generation_steps ?decode ?c0 ?steps
      = Inr (\<lparr>initial_decoder_input_length = 1, done_tracker = [True, True], sequence = ''ab'',
               sequence_id_len = 2\<rparr>, [False, False, True])"
    by (simp add: MultiTokenEOSCriteria_call_def MultiTokenEOSCriteria_init_def lookback_ids_def
        py_from_def sublist_Cons_right eval_nat_numeral)
  from run direct show ?thesis by simp
qed

subsection \<open>Preference pairs\<close>

lemma response_token_ids_start_idx_nonneg:
  "0 \<le> response_token_ids_start_idx tokenizer prompt answer"
proof (cases "enc_input_ids (tokenizer prompt)")
  case Nil
  then show ?thesis by (simp add: response_token_ids_start_idx_def py_upto_def)
next
  case (Cons a as)
  then show ?thesis by (simp add: response_token_ids_start_idx_def Let_def)
qed

lemma response_token_ids_start_idx_cases:
  "nat (response_token_ids_start_idx tokenizer prompt answer) =
     (if enc_input_ids (tokenizer prompt)
           = take (length (enc_input_ids (tokenizer prompt))) (enc_input_ids (tokenizer (prompt @ answer)))
      then length (enc_input_ids (tokenizer prompt))
      else length (enc_input_ids (tokenizer prompt)) - 1)"
  by (simp add: response_token_ids_start_idx_def Let_def py_upto_def nat_diff_distrib')

lemma build_tokenized_answer_split:
  assumes "build_tokenized_answer tokenizer prompt answer = Inr t"
  shows "ans_prompt_input_ids t
           = take (nat (response_token_ids_start_idx tokenizer prompt answer))
               (enc_input_ids (tokenizer (prompt @ answer)))"
    and "ans_input_ids t
           = drop (nat (response_token_ids_start_idx tokenizer prompt answer))
               (enc_input_ids (tokenizer (prompt @ answer)))"
  using assms response_token_ids_start_idx_nonneg [of tokenizer prompt answer]
  by (auto simp: build_tokenized_answer_def Let_def py_from_def py_upto_def split: if_splits)

lemma truncate_prompt_fits:
  "int (length (fst p)) + longer \<le> cfg_max_length cfg \<Longrightarrow> truncate_prompt cfg longer p = Inr p"
  by (simp add: truncate_prompt_def)

lemma truncate_response_fits:
  "int n + longer \<le> cfg_max_length cfg \<Longrightarrow> truncate_response cfg longer n xs = xs"
  by (simp add: truncate_response_def)

lemma tokenize_row_Inr:
  assumes "tokenize_row cfg tokenizer request = Inr batch"
  shows "\<exists>ct rt cp rp.
      build_tokenized_answer tokenizer (pr_context request)
        (py_remove (pr_context request) 0 (chosen_continuation request)) = Inr ct
    \<and> build_tokenized_answer tokenizer (pr_context request)
        (py_remove (pr_context request) 0 (rejected_continuation request)) = Inr rt
    \<and> truncate_prompt cfg
         (int (max (length (ans_input_ids ct @ [cfg_eos_token_id cfg]))
                   (length (ans_input_ids rt @ [cfg_eos_token_id cfg]))))
         (cfg_bos_token_id cfg # ans_prompt_input_ids ct, 1 # ans_prompt_attention_mask ct) = Inr cp
    \<and> truncate_prompt cfg
         (int (max (length (ans_input_ids ct @ [cfg_eos_token_id cfg]))
                   (length (ans_input_ids rt @ [cfg_eos_token_id cfg]))))
         (cfg_bos_token_id cfg # ans_prompt_input_ids rt, 1 # ans_prompt_attention_mask rt) = Inr rp
    \<and> chosen_input_ids batch = fst cp @ truncate_response cfg
         (int (max (length (ans_input_ids ct @ [cfg_eos_token_id cfg]))
                   (length (ans_input_ids rt @ [cfg_eos_token_id cfg]))))
         (length (fst cp)) (ans_input_ids ct @ [cfg_eos_token_id cfg])
    \<and> rejected_input_ids batch = fst rp @ truncate_response cfg
         (int (max (length (ans_input_ids ct @ [cfg_eos_token_id cfg]))
                   (length (ans_input_ids rt @ [cfg_eos_token_id cfg]))))
         (length (fst rp)) (ans_input_ids rt @ [cfg_eos_token_id cfg])
    \<and> chosen_labels batch = make_labels (cfg_label_pad_token_id cfg) (length (fst cp)) (chosen_input_ids batch)
    \<and> rejected_labels batch = make_labels (cfg_label_pad_token_id cfg) (length (fst rp)) (rejected_input_ids batch)"
  using assms unfolding tokenize_row_def Let_def
  by (auto split: sum.splits)

text \<open>
  With a window of four tokens and \<^verbatim>\<open>max_prompt_length = 2\<close> the prompt part of the
  chosen sequence is cut to its last two tokens: the sequence no longer starts with the
  BOS token and the prompt's tokens.
\<close>

theorem tokenize_row_truncates_prompt:
  "tokenize_row
     \<lparr>cfg_bos_token_id = 1, cfg_eos_token_id = 2, cfg_max_length = 4, cfg_max_prompt_length = 2,
      cfg_truncation_mode = ''keep_end'', cfg_label_pad_token_id = - 100\<rparr>
     (\<lambda>s. \<lparr>enc_input_ids = map (\<lambda>c. int (of_char c)) s, enc_attention_mask = map (\<lambda>c. 1) s\<rparr>)
     \<lparr>pr_context = ''abc'', chosen_continuation = ''d'', rejected_continuation = ''e''\<rparr>
   = Inr \<lparr>chosen_input_ids = [98, 99, 100, 2],
           chosen_attention_mask = [1, 1, 1, 1],
           chosen_labels = [- 100, - 100, 100, 2],
           rejected_input_ids = [98, 99, 101, 2],
           rejected_attention_mask = [1, 1, 1, 1],
           rejected_labels = [- 100, - 100, 101, 2],
           prompt_input_ids = [98, 99],
           prompt_attention_mask = [1, 1]\<rparr>
   \<and> [98, 99, 100, 2] \<noteq> 1 # map (\<lambda>c. int (of_char c)) ''abc''
         @ drop (length ''abc'') (map (\<lambda>c. int (of_char c)) ''abcd'')"
proof -
  let ?tok = "\<lambda>s. \<lparr>enc_input_ids = map (\<lambda>c. int (of_char c)) s, enc_attention_mask = map (\<lambda>c. 1 :: int) s\<rparr>"
  have kc: "response_token_ids_start_idx ?tok ''abc'' ''d'' = 3"
    and kr: "response_token_ids_start_idx ?tok ''abc'' ''e'' = 3"
    by (simp_all add: response_token_ids_start_idx_def py_upto_def)
  show ?thesis
    by (simp add: tokenize_row_def build_tokenized_answer_def kc kr py_from_def py_upto_def
        truncate_prompt_def truncate_response_def make_labels_def eval_nat_numeral Let_def)
qed

text \<open>
  \<^bold>\<open>C5\<close> (amended). Let \<open>chosen\<close> and \<open>rejected\<close> be the two completions with the
  occurrences of the prompt removed, \<open>full\<close> the encoding of the prompt followed by the
  completion, and \<open>k\<close> the number of tokens of the prompt encoded alone, less one when
  these are not the first tokens of \<open>full\<close>. Whenever \<^verbatim>\<open>tokenize_row\<close> returns, each label
  list is its input-id list with a leading block replaced by \<^verbatim>\<open>label_pad_token_id\<close> and
  the rest unchanged. When nothing has to be truncated, the chosen (rejected) sequence is
  the BOS token, the first \<open>k\<close> tokens of \<open>full\<close>, the remaining tokens of \<open>full\<close> and the
  EOS token, and its labels mask exactly the first \<open>1 + k\<close> positions.
\<close>

theorem tokenize_row_sequences:
  fixes cfg :: RowConfig and tokenizer :: "string \<Rightarrow> Encoding" and request :: PreferenceRequest
  defines "prompt \<equiv> pr_context request"
  defines "chosen \<equiv> py_remove prompt 0 (chosen_continuation request)"
    and "rejected \<equiv> py_remove prompt 0 (rejected_continuation request)"
  defines "full_c \<equiv> enc_input_ids (tokenizer (prompt @ chosen))"
    and "full_r \<equiv> enc_input_ids (tokenizer (prompt @ rejected))"
    and "k_c \<equiv> nat (response_token_ids_start_idx tokenizer prompt chosen)"
    and "k_r \<equiv> nat (response_token_ids_start_idx tokenizer prompt rejected)"
  assumes ret: "tokenize_row cfg tokenizer request = Inr batch"
  shows "(\<exists>n_c n_r.
            chosen_labels batch
              = replicate n_c (cfg_label_pad_token_id cfg) @ drop n_c (chosen_input_ids batch)
          \<and> rejected_labels batch
              = replicate n_r (cfg_label_pad_token_id cfg) @ drop n_r (rejected_input_ids batch))
       \<and> (int (Suc (max k_c k_r)) + int (Suc (max (length full_c - k_c) (length full_r - k_r)))
             \<le> cfg_max_length cfg
          \<longrightarrow> chosen_input_ids batch
                = cfg_bos_token_id cfg # take k_c full_c @ drop k_c full_c @ [cfg_eos_token_id cfg]
            \<and> chosen_labels batch
                = replicate (Suc k_c) (cfg_label_pad_token_id cfg) @ drop k_c full_c @ [cfg_eos_token_id cfg]
            \<and> rejected_input_ids batch
                = cfg_bos_token_id cfg # take k_r full_r @ drop k_r full_r @ [cfg_eos_token_id cfg]
            \<and> rejected_labels batch
                = replicate (Suc k_r) (cfg_label_pad_token_id cfg) @ drop k_r full_r @ [cfg_eos_token_id cfg]
            \<and> k_c = (if enc_input_ids (tokenizer prompt) = take (length (enc_input_ids (tokenizer prompt))) full_c
                     then length (enc_input_ids (tokenizer prompt))
                     else length (enc_input_ids (tokenizer prompt)) - 1)
            \<and> k_r = (if enc_input_ids (tokenizer prompt) = take (length (enc_input_ids (tokenizer prompt))) full_r
                     then length (enc_input_ids (tokenizer prompt))
                     else length (enc_input_ids (tokenizer prompt)) - 1))"
proof -
  define longer where "longer = int (Suc (max (length full_c - k_c) (length full_r - k_r)))"
  from tokenize_row_Inr [OF ret] obtain ct rt cp rp where
    ct: "build_tokenized_answer tokenizer prompt chosen = Inr ct"
    and rt: "build_tokenized_answer tokenizer prompt rejected = Inr rt"
    and cp: "truncate_prompt cfg
         (int (max (length (ans_input_ids ct @ [cfg_eos_token_id cfg]))
                   (length (ans_input_ids rt @ [cfg_eos_token_id cfg]))))
         (cfg_bos_token_id cfg # ans_prompt_input_ids ct, 1 # ans_prompt_attention_mask ct) = Inr cp"
    and rp: "truncate_prompt cfg
         (int (max (length (ans_input_ids ct @ [cfg_eos_token_id cfg]))
                   (length (ans_input_ids rt @ [cfg_eos_token_id cfg]))))
         (cfg_bos_token_id cfg # ans_prompt_input_ids rt, 1 # ans_prompt_attention_mask rt) = Inr rp"
    and cids: "chosen_input_ids batch = fst cp @ truncate_response cfg
         (int (max (length (ans_input_ids ct @ [cfg_eos_token_id cfg]))
                   (length (ans_input_ids rt @ [cfg_eos_token_id cfg]))))
         (length (fst cp)) (ans_input_ids ct @ [cfg_eos_token_id cfg])"
    and rids: "rejected_input_ids batch = fst rp @ truncate_response cfg
         (int (max (length (ans_input_ids ct @ [cfg_eos_token_id cfg]))
                   (length (ans_input_ids rt @ [cfg_eos_token_id cfg]))))
         (length (fst rp)) (ans_input_ids rt @ [cfg_eos_token_id cfg])"
    and clab: "chosen_labels batch
         = make_labels (cfg_label_pad_token_id cfg) (length (fst cp)) (chosen_input_ids batch)"
    and rlab: "rejected_labels batch
         = make_labels (cfg_label_pad_token_id cfg) (length (fst rp)) (rejected_input_ids batch)"
    unfolding prompt_def chosen_def rejected_def by blast
  note sc = build_tokenized_answer_split [OF ct, folded full_c_def k_c_def]
  note sr = build_tokenized_answer_split [OF rt, folded full_r_def k_r_def]
  have lng: "int (max (length (ans_input_ids ct @ [cfg_eos_token_id cfg]))
                      (length (ans_input_ids rt @ [cfg_eos_token_id cfg]))) = longer"
    unfolding longer_def sc sr by simp
  have labels: "\<exists>n_c n_r.
            chosen_labels batch
              = replicate n_c (cfg_label_pad_token_id cfg) @ drop n_c (chosen_input_ids batch)
          \<and> rejected_labels batch
              = replicate n_r (cfg_label_pad_token_id cfg) @ drop n_r (rejected_input_ids batch)"
    using clab rlab unfolding make_labels_def by blast
  have kc: "k_c = (if enc_input_ids (tokenizer prompt) = take (length (enc_input_ids (tokenizer prompt))) full_c
                     then length (enc_input_ids (tokenizer prompt))
                     else length (enc_input_ids (tokenizer prompt)) - 1)"
    unfolding k_c_def full_c_def by (rule response_token_ids_start_idx_cases)
  have kr: "k_r = (if enc_input_ids (tokenizer prompt) = take (length (enc_input_ids (tokenizer prompt))) full_r
                     then length (enc_input_ids (tokenizer prompt))
                     else length (enc_input_ids (tokenizer prompt)) - 1)"
    unfolding k_r_def full_r_def by (rule response_token_ids_start_idx_cases)
  have seqs: "chosen_input_ids batch
                = cfg_bos_token_id cfg # take k_c full_c @ drop k_c full_c @ [cfg_eos_token_id cfg]
            \<and> chosen_labels batch
                = replicate (Suc k_c) (cfg_label_pad_token_id cfg) @ drop k_c full_c @ [cfg_eos_token_id cfg]
            \<and> rejected_input_ids batch
                = cfg_bos_token_id cfg # take k_r full_r @ drop k_r full_r @ [cfg_eos_token_id cfg]
            \<and> rejected_labels batch
                = replicate (Suc k_r) (cfg_label_pad_token_id cfg) @ drop k_r full_r @ [cfg_eos_token_id cfg]"
    if fits: "int (Suc (max k_c k_r)) + longer \<le> cfg_max_length cfg"
  proof -
    have lc: "length (take k_c full_c) \<le> k_c" and lr: "length (take k_r full_r) \<le> k_r" by simp_all
    have fc: "int (length (fst (cfg_bos_token_id cfg # ans_prompt_input_ids ct, 1 # ans_prompt_attention_mask ct)))
                + longer \<le> cfg_max_length cfg"
      using fits lc unfolding sc by simp
    have fr: "int (length (fst (cfg_bos_token_id cfg # ans_prompt_input_ids rt, 1 # ans_prompt_attention_mask rt)))
                + longer \<le> cfg_max_length cfg"
      using fits lr unfolding sr by simp
    from cp have cp': "cp = (cfg_bos_token_id cfg # ans_prompt_input_ids ct, 1 # ans_prompt_attention_mask ct)"
      unfolding lng truncate_prompt_fits [OF fc] by simp
    from rp have rp': "rp = (cfg_bos_token_id cfg # ans_prompt_input_ids rt, 1 # ans_prompt_attention_mask rt)"
      unfolding lng truncate_prompt_fits [OF fr] by simp
    have c1: "chosen_input_ids batch
                = cfg_bos_token_id cfg # take k_c full_c @ drop k_c full_c @ [cfg_eos_token_id cfg]"
      using cids fc unfolding lng cp' by (simp add: truncate_response_fits sc)
    have r1: "rejected_input_ids batch
                = cfg_bos_token_id cfg # take k_r full_r @ drop k_r full_r @ [cfg_eos_token_id cfg]"
      using rids fr unfolding lng rp' by (simp add: truncate_response_fits sr)
    have kcl: "k_c \<le> length full_c"
      using ct response_token_ids_start_idx_nonneg [of tokenizer prompt chosen]
      unfolding k_c_def full_c_def
      by (auto simp: build_tokenized_answer_def Let_def py_from_def py_upto_def
          response_token_ids_start_idx_def split: if_splits)
    have krl: "k_r \<le> length full_r"
      using rt response_token_ids_start_idx_nonneg [of tokenizer prompt rejected]
      unfolding k_r_def full_r_def
      by (auto simp: build_tokenized_answer_def Let_def py_from_def py_upto_def
          response_token_ids_start_idx_def split: if_splits)
    have c2: "chosen_labels batch
                = replicate (Suc k_c) (cfg_label_pad_token_id cfg) @ drop k_c full_c @ [cfg_eos_token_id cfg]"
      unfolding clab c1 cp' make_labels_def sc using kcl by (simp add: min_absorb2)
    have r2: "rejected_labels batch
                = replicate (Suc k_r) (cfg_label_pad_token_id cfg) @ drop k_r full_r @ [cfg_eos_token_id cfg]"
      unfolding rlab r1 rp' make_labels_def sr using krl by (simp add: min_absorb2)
    from c1 c2 r1 r2 show ?thesis by simp
  qed
  show ?thesis
    using labels seqs kc kr unfolding longer_def by blast
qed

theorem tokenize_row_sequences_witness:
  "tokenize_row
     \<lparr>cfg_bos_token_id = 1, cfg_eos_token_id = 2, cfg_max_length = 2048, cfg_max_prompt_length = 128,
      cfg_truncation_mode = ''keep_end'', cfg_label_pad_token_id = - 100\<rparr>
     (\<lambda>s. \<lparr>enc_input_ids = map (\<lambda>c. int (of_char c)) s, enc_attention_mask = map (\<lambda>c. 1) s\<rparr>)
     \<lparr>pr_context = ''2+2='', chosen_continuation = ''4'', rejected_continuation = ''5''\<rparr>
   = Inr \<lparr>chosen_input_ids = [1, 50, 43, 50, 61, 52, 2],
           chosen_attention_mask = [1, 1, 1, 1, 1, 1, 1],
           chosen_labels = [- 100, - 100, - 100, - 100, - 100, 52, 2],
           rejected_input_ids = [1, 50, 43, 50, 61, 53, 2],
           rejected_attention_mask = [1, 1, 1, 1, 1, 1, 1],
           rejected_labels = [- 100, - 100, - 100, - 100, - 100, 53, 2],
           prompt_input_ids = [1, 50, 43, 50, 61],
           prompt_attention_mask = [1, 1, 1, 1, 1]\<rparr>
   \<and> int (Suc (max 4 4)) + int (Suc (max (5 - 4) (5 - 4))) \<le> (2048 :: int)
   \<and> [1, 50, 43, 50, 61, 52, 2] = 1 # take 4 [50, 43, 50, 61, 52] @ drop 4 [50, 43, 50, 61, 52] @ [2 :: int]
   \<and> [- 100, - 100, - 100, - 100, - 100, 52, 2]
        = replicate (Suc 4) (- 100) @ drop 4 [50, 43, 50, 61, 52] @ [2 :: int]"
proof -
  let ?cfg = "\<lparr>cfg_bos_token_id = 1, cfg_eos_token_id = 2, cfg_max_length = 2048,
      cfg_max_prompt_length = 128, cfg_truncation_mode = ''keep_end'', cfg_label_pad_token_id = - 100\<rparr>"
  let ?tok = "\<lambda>s. \<lparr>enc_input_ids = map (\<lambda>c. int (of_char c)) s, enc_attention_mask = map (\<lambda>c. 1 :: int) s\<rparr>"
  let ?req = "\<lparr>pr_context = ''2+2='', chosen_continuation = ''4'', rejected_continuation = ''5''\<rparr>"
  let ?b = "\<lparr>chosen_input_ids = [1, 50, 43, 50, 61, 52, 2],
           chosen_attention_mask = [1, 1, 1, 1, 1, 1, 1],
           chosen_labels = [- 100, - 100, - 100, - 100, - 100, 52, 2],
           rejected_input_ids = [1, 50, 43, 50, 61, 53, 2],
           rejected_attention_mask = [1, 1, 1, 1, 1, 1, 1],
           rejected_labels = [- 100, - 100, - 100, - 100, - 100, 53, 2],
           prompt_input_ids = [1, 50, 43, 50, 61],
           prompt_attention_mask = [1, 1, 1, 1, 1 :: int]\<rparr>"
  have kc: "response_token_ids_start_idx ?tok ''2+2='' ''4'' = 4"
    and kr: "response_token_ids_start_idx ?tok ''2+2='' ''5'' = 4"
    by (simp_all add: response_token_ids_start_idx_def py_upto_def)
  have ret: "tokenize_row ?cfg ?tok ?req = Inr ?b"
    by (simp add: tokenize_row_def build_tokenized_answer_def kc kr py_from_def py_upto_def
        truncate_prompt_def truncate_response_def make_labels_def eval_nat_numeral Let_def)
  from tokenize_row_sequences [OF ret] ret show ?thesis
    by (simp add: kc kr eval_nat_numeral)
qed

subsection \<open>Request ordering\<close>

lemma batched_concat:
  "0 < batch_size \<Longrightarrow> concat (batched batch_size xs) = xs"
proof (induction batch_size xs rule: batched.induct)
  case (1 batch_size xs)
  show ?case
  proof (cases "xs = []")
    case True
    then show ?thesis by (subst batched.simps) simp
  next
    case False
    with 1 have "concat (batched batch_size (drop batch_size xs)) = drop batch_size xs" by simp
    with False 1(2) show ?thesis by (subst batched.simps) simp
  qed
qed

lemma process_batches_rel:
  assumes len: "\<And>b. length (process b) = length b"
    and rel: "\<And>b k. k < length b \<Longrightarrow> R (b ! k) (process b ! k)"
  shows "list_all2 R (concat bs) (concat (map process bs))"
proof (induction bs)
  case Nil
  then show ?case by simp
next
  case (Cons b bs)
  have "list_all2 R b (process b)"
    using len rel by (simp add: list_all2_conv_all_nth)
  with Cons show ?case by (simp add: list_all2_appendI)
qed

lemma run_splits_rel:
  assumes len: "\<And>b. length (process b) = length b"
    and rel: "\<And>b k. k < length b \<Longrightarrow> R (b ! k) (process b ! k)"
    and splits: "contiguous_splits p (length data) (map fst splits)"
    and sizes: "\<forall>s \<in> set splits. 0 < snd s"
  shows "list_all2 R (drop p data) (run_splits process data splits)"
  using splits sizes
proof (induction splits arbitrary: p)
  case Nil
  then show ?case by (simp add: run_splits_def)
next
  case (Cons s rest)
  obtain split_start split_end batch_size where s: "s = ((split_start, split_end), batch_size)"
    by (metis prod.exhaust)
  from Cons.prems s have p: "split_start = p" "p \<le> split_end" "split_end \<le> length data"
    and rest: "contiguous_splits split_end (length data) (map fst rest)"
    and bs: "0 < batch_size" and sizes: "\<forall>s \<in> set rest. 0 < snd s"
    by auto
  let ?slice = "take (split_end - p) (drop p data)"
  have "list_all2 R (concat (batched batch_size ?slice))
          (concat (map process (batched batch_size ?slice)))"
    using len rel by (rule process_batches_rel [where process = process and R = R])
  then have first: "list_all2 R ?slice (concat (map process (batched batch_size ?slice)))"
    by (simp only: batched_concat [OF bs])
  have tail: "list_all2 R (drop split_end data) (run_splits process data rest)"
    by (rule Cons.IH [OF rest sizes])
  have split: "drop p data = ?slice @ drop split_end data"
    using p
    by (metis add_diff_cancel_left' append_take_drop_id drop_drop le_Suc_ex add.commute)
  have run: "run_splits process data (s # rest)
      = concat (map process (batched batch_size ?slice)) @ run_splits process data rest"
    by (simp add: run_splits_def s p)
  have "list_all2 R (?slice @ drop split_end data)
          (concat (map process (batched batch_size ?slice)) @ run_splits process data rest)"
    using first tail by (rule list_all2_appendI)
  then show ?case
    unfolding run by (subst split)
qed

lemma make_dataset_order:
  fixes requests :: "'r list" and sorting_criteria :: "'r \<Rightarrow> int"
  defines "ds \<equiv> make_dataset sorting_criteria requests"
  shows "length (sorted_data ds) = length requests"
    and "mset (original_order ds) = mset [0..<length requests]"
    and "\<And>k. k < length requests \<Longrightarrow> sorted_data ds ! k = requests ! (original_order ds ! k)"
proof -
  define se where "se = sort_key (\<lambda>(i, r). sorting_criteria r) (enumerate 0 requests)"
  have ds: "sorted_data ds = map snd se" "original_order ds = map fst se"
    by (simp_all add: ds_def make_dataset_def se_def Let_def)
  have len: "length se = length requests"
    by (simp add: se_def)
  show "length (sorted_data ds) = length requests"
    by (simp add: ds len)
  have "mset se = mset (enumerate 0 requests)"
    by (simp add: se_def)
  then have "mset (map fst se) = mset (map fst (enumerate 0 requests))"
    by (metis mset_map)
  then show "mset (original_order ds) = mset [0..<length requests]"
    by (simp add: ds map_fst_enumerate)
  fix k assume k: "k < length requests"
  have "se ! k \<in> set se" using k len by simp
  then have mem: "se ! k \<in> set (enumerate 0 requests)" by (simp add: se_def)
  obtain j r where jr: "se ! k = (j, r)" by (cases "se ! k")
  from mem have "r = requests ! j"
    unfolding jr by (simp add: in_set_enumerate_eq)
  then have "snd (se ! k) = requests ! fst (se ! k)"
    by (simp add: jr)
  then show "sorted_data ds ! k = requests ! (original_order ds ! k)"
    using k len by (simp add: ds)
qed

lemma sort_key_fst_permutation:
  fixes res :: "'a list"
  assumes perm: "mset order = mset [0..<n]" and len: "length res = n"
  shows "length (sort_key fst (zip order res)) = n"
    and "\<And>i. i < n \<Longrightarrow> \<exists>k < n. order ! k = i \<and> snd (sort_key fst (zip order res) ! i) = res ! k"
proof -
  define ps where "ps = sort_key fst (zip order res)"
  have lo: "length order = n"
    using perm by (metis length_upt diff_zero size_mset)
  show l: "length (sort_key fst (zip order res)) = n"
    using lo len by simp
  have "mset (map fst ps) = mset (map fst (zip order res))"
    unfolding ps_def by (metis mset_map mset_sort)
  also have "map fst (zip order res) = order"
    using lo len by simp
  finally have m: "mset (map fst ps) = mset [0..<n]"
    using perm by simp
  have "sorted (map fst ps)"
    unfolding ps_def by (rule sorted_sort_key)
  with m have "sort [0..<n] = map fst ps"
    by (intro properties_for_sort) simp_all
  then have fsts: "map fst ps = [0..<n]"
    by (simp add: sorted_sort_id)
  fix i assume i: "i < n"
  have ips: "i < length ps" using i l by (simp add: ps_def)
  have fi: "fst (ps ! i) = i"
    using fsts i ips by (metis nth_map nth_upt add_0)
  have "ps ! i \<in> set ps" using ips by simp
  then have "ps ! i \<in> set (zip order res)" by (simp add: ps_def)
  then obtain k where k: "k < length order" "k < length res" "ps ! i = (order ! k, res ! k)"
    by (auto simp: in_set_zip)
  with fi have "order ! k = i \<and> snd (ps ! i) = res ! k" by simp
  with k len show "\<exists>k < n. order ! k = i \<and> snd (sort_key fst (zip order res) ! i) = res ! k"
    unfolding ps_def by blast
qed

text \<open>
  \<^bold>\<open>C1\<close>. The requests are sorted into a dataset, processed split by split and batch by
  batch (contiguous splits covering the sorted requests, a positive batch size for each),
  each batch yielding one response per request in the batch's order, and the collected
  responses are passed through \<^verbatim>\<open>get_original_order\<close>. The returned list has one
  response per submitted request, and the response at position \<open>i\<close> is the one produced for
  the request the caller submitted at position \<open>i\<close>: the caller never sees the sort order.
\<close>

theorem responses_in_original_order:
  assumes len: "\<And>b. length (process b) = length b"
    and rel: "\<And>b k. k < length b \<Longrightarrow> R (b ! k) (process b ! k)"
    and splits: "contiguous_splits 0 (length requests) (map fst splits)"
    and sizes: "\<forall>s \<in> set splits. 0 < snd s"
  shows "length (process_requests sorting_criteria process requests splits) = length requests
       \<and> (\<forall>i < length requests.
             R (requests ! i) (process_requests sorting_criteria process requests splits ! i))"
proof -
  define ds where "ds = make_dataset sorting_criteria requests"
  define results where "results = run_splits process (sorted_data ds) splits"
  let ?n = "length requests"
  note d = make_dataset_order [where sorting_criteria = sorting_criteria and requests = requests,
      folded ds_def]
  have "contiguous_splits 0 (length (sorted_data ds)) (map fst splits)"
    using splits d(1) by simp
  from run_splits_rel [where process = process and R = R, OF len rel this sizes]
  have all2: "list_all2 R (sorted_data ds) results"
    by (simp add: results_def)
  then have lr: "length results = ?n"
    using d(1) by (simp add: list_all2_lengthD [symmetric])
  note s = sort_key_fst_permutation [OF d(2) lr]
  have final: "process_requests sorting_criteria process requests splits
      = map snd (sort_key fst (zip (original_order ds) results))"
    by (simp add: process_requests_def get_original_order_def ds_def results_def Let_def)
  have l: "length (process_requests sorting_criteria process requests splits) = ?n"
    unfolding final using s(1) by simp
  have "R (requests ! i) (process_requests sorting_criteria process requests splits ! i)"
    if i: "i < ?n" for i
  proof -
    from s(2) [OF i] obtain k where k: "k < ?n" "original_order ds ! k = i"
      "snd (sort_key fst (zip (original_order ds) results) ! i) = results ! k"
      by blast
    have "R (sorted_data ds ! k) (results ! k)"
      using all2 k(1) d(1) by (simp add: list_all2_conv_all_nth)
    then have "R (requests ! i) (results ! k)"
      using d(3) [OF k(1)] k(2) by simp
    then show ?thesis
      unfolding final using k(3) i s(1) by simp
  qed
  with l show ?thesis by blast
qed

theorem responses_in_original_order_witness:
  "contiguous_splits 0 (length [''a'', ''bbb'', ''cc'']) (map fst [((0, 2), 1 :: nat), ((2, 3), 4)])
   \<and> 0 < snd ((0 :: nat, 2 :: nat), 1 :: nat) \<and> 0 < snd ((2 :: nat, 3 :: nat), 4 :: nat)
   \<and> process_requests (\<lambda>r. - int (length r)) (map length) [''a'', ''bbb'', ''cc'']
        [((0, 2), 1), ((2, 3), 4)] = [1, 3, 2]
   \<and> process_requests (\<lambda>r. - int (length r)) (map length) [''a'', ''bbb'', ''cc'']
        [((0, 2), 1), ((2, 3), 4)] ! 1 = length ([''a'', ''bbb'', ''cc''] ! 1)"
proof -
  let ?requests = "[''a'', ''bbb'', ''cc'']"
  let ?splits = "[((0, 2), 1), ((2, 3), 4)] :: ((nat \<times> nat) \<times> nat) list"
  have splits: "contiguous_splits 0 (length ?requests) (map fst ?splits)" by simp
  have sizes: "\<forall>s \<in> set ?splits. 0 < snd s" by simp
  have len: "\<And>b :: string list. length (map length b) = length b" by simp
  have rel: "\<And>(b :: string list) k. k < length b \<Longrightarrow> map length b ! k = length (b ! k)" by simp
  from responses_in_original_order [where process = "map length" and R = "\<lambda>r a. a = length r",
      OF len rel splits sizes, of "\<lambda>r. - int (length r)"]
  have t: "process_requests (\<lambda>r. - int (length r)) (map length) ?requests ?splits ! 1
            = length (?requests ! 1)"
    by simp
  have b1: "batched (Suc 0) [''bbb'', ''cc''] = [[''bbb''], [''cc'']]"
    and b2: "batched 4 [''a''] = [[''a'']]"
    by (simp_all add: batched.simps)
  have direct: "process_requests (\<lambda>r. - int (length r)) (map length) ?requests ?splits = [1, 3, 2]"
    by (simp add: process_requests_def make_dataset_def get_original_order_def run_splits_def
        enumerate_eq_zip upt_rec b1 b2)
  from t direct splits show ?thesis by simp
qed

end
